theory Spec2Isabelle
  imports Main "HOL-Library.Word" "HOL-Library.Sublist"
begin

unbundle bit_operations_syntax

text \<open>
  The chain synchronisation core of the node: \<^verbatim>\<open>StoreBlock\<close> of the block pool
  (package \<^verbatim>\<open>pool\<close>) and the sync manager (package \<^verbatim>\<open>sync\<close>) with its initial
  block-pool sync, its initial mempool sync, the validation of a received block and the
  handler of new transactions.
\<close>

section \<open>Data model\<close>

text \<open>
  Go's \<^verbatim>\<open>[]byte\<close> is a list of 8-bit words, \<^verbatim>\<open>uint64\<close> a 64-bit word
  (so that \<open>-\<close> and \<open>+\<close> wrap as they do in Go), a Go \<^verbatim>\<open>string\<close> holding ASCII
  an Isabelle \<open>string\<close>.
\<close>

type_synonym byte = "8 word"
type_synonym bytes = "byte list"
type_synonym uint64 = "64 word"

text \<open>\<^verbatim>\<open>merkletree.Proof\<close> of the go-merkletree library.\<close>

record Proof =
  Hashes :: "bytes list"
  Index :: uint64

text \<open>
  \<^verbatim>\<open>types.BlockHeader\<close>, \<^verbatim>\<open>types.Transaction\<close> and \<^verbatim>\<open>types.Block\<close>, with the fields the
  synchronisation code reads. A pointer that may be nil is an option. Record fields
  share one name space, so the transaction's \<^verbatim>\<open>Hash\<close> and \<^verbatim>\<open>Data\<close> are \<open>TxHash\<close>
  and \<open>TxData\<close>.
\<close>

record BlockHeader =
  Height :: uint64
  Hash :: bytes
  LastHash :: bytes
  LastHashProof :: "Proof option"

record Transaction =
  TxHash :: bytes
  MerkleProof :: "Proof option"
  TxData :: bytes

record Block =
  Header :: BlockHeader
  Data :: "Transaction list"

subsection \<open>Errors\<close>

text \<open>
  A Go \<^verbatim>\<open>error\<close> value is \<open>error option\<close>, \<^verbatim>\<open>nil\<close> being \<open>None\<close>. The sentinel errors
  of package \<^verbatim>\<open>pool\<close> are constructors; \<open>ErrExternal\<close> is an error made by a library
  (lmdb, cbor, gorpc) or sent by the peer; \<open>Errorf\<close> keeps the format string of
  \<^verbatim>\<open>fmt.Errorf\<close> and its arguments (\<open>ArgError e\<close> standing for \<^verbatim>\<open>e.Error()\<close>).
\<close>

datatype error =
    ErrLatestHeightNil
  | ErrBlockNotFound
  | ErrTxNotFound
  | ErrExternal string
  | Errorf string "fmt_arg list"
and fmt_arg =
    ArgUint64 uint64
  | ArgUint64s "uint64 list"
  | ArgError error

subsection \<open>Wire types\<close>

record LastBlockHeightReply =
  ReplyHeight :: uint64
  ReplyError :: "error option"

record GetRangeOfBlocksReply =
  Blocks :: "Block list"
  FailedBlockHeights :: "uint64 list"

record InvMessage =
  Inventory :: "bytes list"

record GetMempoolTxsReply =
  Transactions :: "Transaction list"
  TxsError :: "error option"

datatype rpc_arg =
    NilArg
  | GetRangeOfBlocksArg (From: uint64) (To: uint64)
  | GetMempoolTxsArg (Items: "bytes list")

text \<open>\<^verbatim>\<open>pubsub.GenericMessage\<close>: the payload is an interface value, a transaction or not.\<close>

datatype payload =
    TransactionPayload Transaction
  | OtherPayload bytes

record GenericMessage =
  Payload :: payload

subsection \<open>Calls on collaborators\<close>

text \<open>
  Every call the sync manager makes on a collaborator (block pool, mempool, RPC client,
  pub/sub router, logger) is recorded, in order, in the trace of the state.
\<close>

datatype event =
    EvHook string
  | EvGetLatestBlockHeight
  | EvFetchBlockHeaderByHeight uint64
  | EvStoreBlock Block
  | EvGetTransaction bytes
  | EvStoreTx Transaction
  | EvCall string rpc_arg
  | EvWarn string
  | EvWarnf string "fmt_arg list"
  | EvError error

type_synonym db = "string \<rightharpoonup> bytes"

text \<open>
  The state of \<^verbatim>\<open>syncManager\<close> and of what it owns: the LMDB database of the block pool,
  the flag \<^verbatim>\<open>initialSyncCompleted\<close>, the counter of the wait group, whether the context
  was cancelled, and the trace.
\<close>

record state =
  blockpool :: db
  initialSyncCompleted :: bool
  wg :: nat
  cancelled :: bool
  trace :: "event list"

text \<open>
  What the source under verification does not contain is a parameter: the policy
  constants, the genesis block, \<^verbatim>\<open>Transaction.ValidateHash\<close>, the Merkle verifier
  (called as \<open>VerifyProofUsing data proof root\<close>, the salt being false, the pollard the
  single root and the hash Keccak-256; a nil proof is handed to it as it is), the two height-indexed lookups of the block pool,
  the mempool, the CBOR encoder, the failures of LMDB, and the bootstrap peer. The mempool
  and the peer answer as a function of the trace so far and of the request.
\<close>

record env =
  MaxBlockCountForRetrieving :: uint64
  MaxTransactionCountForRetrieving :: nat
  GenesisBlock :: Block
  ValidateHash :: "Transaction \<Rightarrow> bool"
  VerifyProofUsing :: "bytes \<Rightarrow> Proof option \<Rightarrow> bytes \<Rightarrow> error + bool"
  GetLatestBlockHeight :: "db \<Rightarrow> uint64 \<times> error option"
  FetchBlockHeaderByHeight :: "db \<Rightarrow> uint64 \<Rightarrow> error + BlockHeader"
  GetTransaction :: "event list \<Rightarrow> bytes \<Rightarrow> error + Transaction"
  StoreTx :: "event list \<Rightarrow> Transaction \<Rightarrow> error option"
  MarshalBlock :: "Block \<Rightarrow> error + bytes"
  MarshalHeader :: "BlockHeader \<Rightarrow> error + bytes"
  BeginTxnError :: "db \<Rightarrow> error option"
  PutError :: "db \<Rightarrow> string \<Rightarrow> bytes \<Rightarrow> error option"
  CommitError :: "db \<Rightarrow> error option"
  LastBlockHeight :: "event list \<Rightarrow> error + LastBlockHeightReply"
  GetRangeOfBlocks :: "event list \<Rightarrow> uint64 \<Rightarrow> uint64 \<Rightarrow> error + GetRangeOfBlocksReply"
  Mempool :: "event list \<Rightarrow> error + InvMessage"
  GetMempoolTxs :: "event list \<Rightarrow> bytes list \<Rightarrow> error + GetMempoolTxsReply"

section \<open>Block pool\<close>

definition DefaultBlockPrefix :: string where
  "DefaultBlockPrefix = ''block_''"

definition DefaultBlockHeaderPrefix :: string where
  "DefaultBlockHeaderPrefix = ''header_''"

text \<open>\<^verbatim>\<open>hex.EncodeToString\<close>: two characters of \<open>hextable\<close> for each byte, high nibble first.\<close>

definition hextable :: string where
  "hextable = ''0123456789abcdef''"

definition EncodeToString :: "bytes \<Rightarrow> string" where
  "EncodeToString src =
     concat (map (\<lambda>v. [hextable ! unat (drop_bit 4 v), hextable ! unat (v AND 0x0f)]) src)"

text \<open>
  \<^verbatim>\<open>txn.Put\<close> inside a write transaction: the transaction works on its own view of the
  database; a put that fails leaves the view as it was.
\<close>

definition Put :: "env \<Rightarrow> db \<Rightarrow> string \<Rightarrow> bytes \<Rightarrow> error option \<times> db" where
  "Put e txn key val =
     (case PutError e txn key val of
        Some err \<Rightarrow> (Some err, txn)
      | None \<Rightarrow> (None, txn(key \<mapsto> val)))"

text \<open>
  \<^verbatim>\<open>env.Update(fn)\<close> of lmdb-go: begin a write transaction, run \<open>fn\<close> in it, commit when
  \<open>fn\<close> returns nil, abort otherwise. Only a commit changes the database.
\<close>

definition Update :: "env \<Rightarrow> db \<Rightarrow> (db \<Rightarrow> error option \<times> db) \<Rightarrow> error option \<times> db" where
  "Update e d fn =
     (case BeginTxnError e d of
        Some err \<Rightarrow> (Some err, d)
      | None \<Rightarrow>
          (case fn d of
             (Some err, txn) \<Rightarrow> (Some err, d)
           | (None, txn) \<Rightarrow>
               (case CommitError e txn of
                  Some err \<Rightarrow> (Some err, d)
                | None \<Rightarrow> (None, txn))))"

definition StoreBlock :: "env \<Rightarrow> db \<Rightarrow> Block \<Rightarrow> error option \<times> db" where
  "StoreBlock e d block =
     Update e d (\<lambda>txn.
       case MarshalBlock e block of
         Inl err \<Rightarrow> (Some err, txn)
       | Inr data \<Rightarrow>
           (case MarshalHeader e (Header block) of
              Inl err \<Rightarrow> (Some err, txn)
            | Inr headerData \<Rightarrow>
                (let blockHash = EncodeToString (Hash (Header block)) in
                 case Put e txn (DefaultBlockPrefix @ blockHash) data of
                   (Some err, txn1) \<Rightarrow> (Some err, txn1)
                 | (None, txn1) \<Rightarrow>
                     Put e txn1 (DefaultBlockHeaderPrefix @ blockHash) headerData)))"

section \<open>Sync manager\<close>

definition record_event :: "event \<Rightarrow> state \<Rightarrow> state" where
  "record_event ev st = st\<lparr>trace := trace st @ [ev]\<rparr>"

text \<open>The calls \<^verbatim>\<open>sm.blockpool.StoreBlock\<close>, \<^verbatim>\<open>sm.mempool.StoreTx\<close> as the manager makes them.\<close>

definition blockpool_StoreBlock :: "env \<Rightarrow> state \<Rightarrow> Block \<Rightarrow> error option \<times> state" where
  "blockpool_StoreBlock e st block =
     (case StoreBlock e (blockpool st) block of
        (err, d) \<Rightarrow> (err, record_event (EvStoreBlock block) (st\<lparr>blockpool := d\<rparr>)))"

definition mempool_StoreTx :: "env \<Rightarrow> state \<Rightarrow> Transaction \<Rightarrow> error option \<times> state" where
  "mempool_StoreTx e st tx = (StoreTx e (trace st) tx, record_event (EvStoreTx tx) st)"

definition mempool_GetTransaction :: "env \<Rightarrow> state \<Rightarrow> bytes \<Rightarrow> (error + Transaction) \<times> state" where
  "mempool_GetTransaction e st h = (GetTransaction e (trace st) h, record_event (EvGetTransaction h) st)"

subsection \<open>processReceivedBlock\<close>

text \<open>The loop over \<^verbatim>\<open>block.Data\<close>: the first transaction that fails a check ends it.\<close>

fun checkTransactions :: "env \<Rightarrow> Block \<Rightarrow> Transaction list \<Rightarrow> error option" where
  "checkTransactions e block [] = None"
| "checkTransactions e block (tx # txs) =
     (if MerkleProof tx = None then
        Some (Errorf ''block transaction hasn't merkle proof'' [])
      else
        (case VerifyProofUsing e (TxHash tx) (MerkleProof tx) (Hash (Header block)) of
           Inl err \<Rightarrow> Some (Errorf ''failed to verify tx hash merkle proof: %s'' [ArgError err])
         | Inr txProofVerified \<Rightarrow>
             if \<not> txProofVerified then
               Some (Errorf ''transaction doesn't present in block hash merkle tree'' [])
             else if \<not> ValidateHash e tx then
               Some (Errorf ''transaction hash is invalid'' [])
             else checkTransactions e block txs))"

definition processReceivedBlock :: "env \<Rightarrow> state \<Rightarrow> Block \<Rightarrow> error option \<times> state" where
  "processReceivedBlock e st0 block =
     (let st = record_event (EvFetchBlockHeaderByHeight (Height (Header block) - 1)) st0 in
      case FetchBlockHeaderByHeight e (blockpool st) (Height (Header block) - 1) of
        Inl err \<Rightarrow>
          (Some (Errorf ''failed to retrieve previous block %d''
                   [ArgUint64 (Height (Header block) - 1)]), st)
      | Inr previousBlockHeader \<Rightarrow>
          if LastHash (Header block) \<noteq> Hash previousBlockHeader then
            (Some (Errorf ''block header has invalid last block hash'' []), st)
          else
            (case VerifyProofUsing e (Hash previousBlockHeader) (LastHashProof (Header block))
                    (Hash (Header block)) of
               Inl err \<Rightarrow>
                 (Some (Errorf ''failed to verify last block hash merkle proof: %s''
                          [ArgError err]), st)
             | Inr verified \<Rightarrow>
                 if \<not> verified then
                   (Some (Errorf ''merkle hash of current block doesn't contain hash of previous block'' []), st)
                 else
                   (case checkTransactions e block (Data block) of
                      Some err \<Rightarrow> (Some err, st)
                    | None \<Rightarrow>
                        (case blockpool_StoreBlock e st block of
                           (Some err, st1) \<Rightarrow>
                             (Some (Errorf ''failed to store block in blockpool: %s''
                                      [ArgError err]), st1)
                         | (None, st1) \<Rightarrow> (None, st1)))))"

subsection \<open>onNewTransaction\<close>

definition onNewTransaction :: "env \<Rightarrow> GenericMessage \<Rightarrow> state \<Rightarrow> state" where
  "onNewTransaction e message st =
     (case Payload message of
        OtherPayload other \<Rightarrow>
          record_event (EvWarn ''failed to convert payload to Transaction'') st
      | TransactionPayload tx \<Rightarrow>
          if \<not> ValidateHash e tx then
            record_event (EvWarn ''failed to validate tx hash, rejecting it'') st
          else
            (case mempool_StoreTx e st tx of
               (Some err, st1) \<Rightarrow>
                 record_event
                   (EvWarnf ''failed to store incoming transaction in mempool: %s'' [ArgError err])
                   st1
             | (None, st1) \<Rightarrow> st1))"

subsection \<open>RPC calls to the bootstrap peer\<close>

definition rpc_LastBlockHeight :: "env \<Rightarrow> state \<Rightarrow> (error + LastBlockHeightReply) \<times> state" where
  "rpc_LastBlockHeight e st =
     (LastBlockHeight e (trace st), record_event (EvCall ''LastBlockHeight'' NilArg) st)"

definition rpc_GetRangeOfBlocks ::
  "env \<Rightarrow> state \<Rightarrow> uint64 \<Rightarrow> uint64 \<Rightarrow> (error + GetRangeOfBlocksReply) \<times> state" where
  "rpc_GetRangeOfBlocks e st from to =
     (GetRangeOfBlocks e (trace st) from to,
      record_event (EvCall ''GetRangeOfBlocks'' (GetRangeOfBlocksArg from to)) st)"

definition rpc_Mempool :: "env \<Rightarrow> state \<Rightarrow> (error + InvMessage) \<times> state" where
  "rpc_Mempool e st = (Mempool e (trace st), record_event (EvCall ''Mempool'' NilArg) st)"

definition rpc_GetMempoolTxs ::
  "env \<Rightarrow> state \<Rightarrow> bytes list \<Rightarrow> (error + GetMempoolTxsReply) \<times> state" where
  "rpc_GetMempoolTxs e st items =
     (GetMempoolTxs e (trace st) items,
      record_event (EvCall ''GetMempoolTxs'' (GetMempoolTxsArg items)) st)"

subsection \<open>doInitialBlockPoolSync\<close>

text \<open>
  The loop \<^verbatim>\<open>for heightCount > 0\<close>. Nothing in the loop bounds the number of its
  iterations by itself (with a zero \<open>MaxBlockCountForRetrieving\<close> the counter never
  moves), so the model takes fuel, one unit for each iteration: \<open>None\<close> is a loop that is
  still running when the fuel is spent, and the state holds what it did until then.
\<close>

fun fetchBlocks ::
  "nat \<Rightarrow> env \<Rightarrow> uint64 \<Rightarrow> uint64 \<Rightarrow> Block list \<Rightarrow> state
     \<Rightarrow> (error + Block list) option \<times> state" where
  "fetchBlocks 0 e heightCount to receivedBlocks st =
     (if heightCount > 0 then (None, st) else (Some (Inr receivedBlocks), st))"
| "fetchBlocks (Suc fuel) e heightCount to receivedBlocks st =
     (if heightCount > 0 then
        (let from = to + 1;
             addedVal = (if heightCount < MaxBlockCountForRetrieving e then heightCount
                         else MaxBlockCountForRetrieving e);
             heightCount1 = heightCount - addedVal;
             to1 = to + addedVal
         in case rpc_GetRangeOfBlocks e st from to1 of
              (Inl err, st1) \<Rightarrow> (Some (Inl err), st1)
            | (Inr getBlocksReply, st1) \<Rightarrow>
                fetchBlocks fuel e heightCount1 to1 (receivedBlocks @ Blocks getBlocksReply)
                  (if length (FailedBlockHeights getBlocksReply) \<noteq> 0 then
                     record_event
                       (EvWarnf ''remote node is unable to retrieve block heights: %s''
                          [ArgUint64s (FailedBlockHeights getBlocksReply)]) st1
                   else st1))
      else (Some (Inr receivedBlocks), st))"

text \<open>The loop \<^verbatim>\<open>for _, b := range receivedBlocks\<close>.\<close>

fun processBlocks :: "env \<Rightarrow> state \<Rightarrow> Block list \<Rightarrow> state" where
  "processBlocks e st [] = st"
| "processBlocks e st (b # bs) =
     (case processReceivedBlock e st b of
        (Some err, st1) \<Rightarrow>
          processBlocks e
            (record_event
               (EvWarnf ''unable to process block %d: %s''
                  [ArgUint64 (Height (Header b)), ArgError err]) st1) bs
      | (None, st1) \<Rightarrow> processBlocks e st1 bs)"

text \<open>
  The result is \<open>None\<close> when the fuel is spent, \<open>Some None\<close> for \<^verbatim>\<open>return nil\<close> and
  \<open>Some (Some err)\<close> for \<^verbatim>\<open>return err\<close>. \<open>syncWithPeer\<close> is the body of
  \<^verbatim>\<open>doInitialBlockPoolSync\<close> from the call of \<^verbatim>\<open>LastBlockHeight\<close> on, where
  \<^verbatim>\<open>err\<close> is assigned anew.
\<close>

definition syncWithPeer :: "nat \<Rightarrow> env \<Rightarrow> uint64 \<Rightarrow> state \<Rightarrow> error option option \<times> state" where
  "syncWithPeer fuel e ourLastHeight st =
     (case rpc_LastBlockHeight e st of
        (Inl err, st1) \<Rightarrow> (Some (Some err), st1)
      | (Inr reply, st1) \<Rightarrow>
          (case ReplyError reply of
             Some err \<Rightarrow> (Some (Some err), st1)
           | None \<Rightarrow>
               if ReplyHeight reply > ourLastHeight then
                 (case fetchBlocks fuel e (ReplyHeight reply - ourLastHeight)
                         ourLastHeight [] st1 of
                    (None, st2) \<Rightarrow> (None, st2)
                  | (Some (Inl err), st2) \<Rightarrow> (Some (Some err), st2)
                  | (Some (Inr receivedBlocks), st2) \<Rightarrow>
                      (Some None, processBlocks e st2 receivedBlocks))
               else (Some None, st1)))"

definition doInitialBlockPoolSync :: "nat \<Rightarrow> env \<Rightarrow> state \<Rightarrow> error option option \<times> state" where
  "doInitialBlockPoolSync fuel e st0 =
     (if initialSyncCompleted st0 then (Some None, st0)
      else
        (let st = record_event EvGetLatestBlockHeight st0 in
         case GetLatestBlockHeight e (blockpool st) of
           (ourLastHeight, err) \<Rightarrow>
             if err = Some ErrLatestHeightNil then
               (case blockpool_StoreBlock e st (GenesisBlock e) of
                  (Some err1, st1) \<Rightarrow> (Some (Some err1), st1)
                | (None, st1) \<Rightarrow> syncWithPeer fuel e ourLastHeight st1)
             else syncWithPeer fuel e ourLastHeight st))"

subsection \<open>doInitialMempoolSync\<close>

text \<open>\<^verbatim>\<open>errors.Is\<close>: none of the errors of the model wraps another one.\<close>

definition errors_Is :: "error + 'a \<Rightarrow> error \<Rightarrow> bool" where
  "errors_Is r target = (case r of Inl err \<Rightarrow> err = target | Inr v \<Rightarrow> False)"

text \<open>The loop \<^verbatim>\<open>for _, v := range reply.Inventory\<close>.\<close>

fun collectMissing :: "env \<Rightarrow> state \<Rightarrow> bytes list \<Rightarrow> bytes list \<Rightarrow> bytes list \<times> state" where
  "collectMissing e st txsToRetrieve [] = (txsToRetrieve, st)"
| "collectMissing e st txsToRetrieve (v # vs) =
     (case mempool_GetTransaction e st v of
        (r, st1) \<Rightarrow>
          collectMissing e st1
            (if errors_Is r ErrTxNotFound then txsToRetrieve @ [v] else txsToRetrieve) vs)"

text \<open>The loop \<^verbatim>\<open>for _, v := range getMempoolTxReply.Transactions\<close>.\<close>

fun storeTransactions :: "env \<Rightarrow> state \<Rightarrow> Transaction list \<Rightarrow> state" where
  "storeTransactions e st [] = st"
| "storeTransactions e st (v # vs) =
     (case mempool_StoreTx e st v of
        (Some err, st1) \<Rightarrow>
          storeTransactions e (record_event (EvWarnf ''%s'' [ArgError err]) st1) vs
      | (None, st1) \<Rightarrow> storeTransactions e st1 vs)"

text \<open>
  The loop \<^verbatim>\<open>for { ... }\<close> that leaves only by \<^verbatim>\<open>break\<close> or \<^verbatim>\<open>return\<close>, with fuel as
  above. In the \<^verbatim>\<open>else\<close> branch the source assigns \<^verbatim>\<open>txHashes\<close> only:
  \<^verbatim>\<open>txsToRetrieve\<close> keeps its value.
\<close>

fun retrieveTxs :: "nat \<Rightarrow> env \<Rightarrow> bytes list \<Rightarrow> state \<Rightarrow> error option option \<times> state" where
  "retrieveTxs 0 e txsToRetrieve st =
     (if length txsToRetrieve = 0 then (Some None, st) else (None, st))"
| "retrieveTxs (Suc fuel) e txsToRetrieve st =
     (if length txsToRetrieve = 0 then (Some None, st)
      else
        (case (if length txsToRetrieve > MaxTransactionCountForRetrieving e
               then (take (MaxTransactionCountForRetrieving e) txsToRetrieve,
                     drop (MaxTransactionCountForRetrieving e) txsToRetrieve)
               else (txsToRetrieve, txsToRetrieve)) of
           (txHashes, txsToRetrieve1) \<Rightarrow>
             (case rpc_GetMempoolTxs e st txHashes of
                (Inl err, st1) \<Rightarrow> (Some (Some err), st1)
              | (Inr getMempoolTxReply, st1) \<Rightarrow>
                  (case TxsError getMempoolTxReply of
                     Some err \<Rightarrow> (Some (Some err), st1)
                   | None \<Rightarrow>
                       retrieveTxs fuel e txsToRetrieve1
                         (storeTransactions e st1 (Transactions getMempoolTxReply))))))"

definition doInitialMempoolSync :: "nat \<Rightarrow> env \<Rightarrow> state \<Rightarrow> error option option \<times> state" where
  "doInitialMempoolSync fuel e st =
     (case rpc_Mempool e st of
        (Inl err, st1) \<Rightarrow> (Some (Some err), st1)
      | (Inr reply, st1) \<Rightarrow>
          (case collectMissing e st1 [] (Inventory reply) of
             (txsToRetrieve, st2) \<Rightarrow> retrieveTxs fuel e txsToRetrieve st2))"

subsection \<open>Life cycle\<close>

definition NewSyncManager :: "db \<Rightarrow> state" where
  "NewSyncManager bp =
     \<lparr>blockpool = bp, initialSyncCompleted = False, wg = 0, cancelled = False,
      trace = [EvHook ''NewTxMessageType'']\<rparr>"

definition log_error :: "error option \<Rightarrow> state \<Rightarrow> state" where
  "log_error err st = (case err of Some x \<Rightarrow> record_event (EvError x) st | None \<Rightarrow> st)"

text \<open>
  \<^verbatim>\<open>Start\<close>: the two initial procedures one after the other, their errors logged; the
  goroutine it starts last runs \<^verbatim>\<open>syncLoop\<close>, whose body is empty.
\<close>

definition Start :: "nat \<Rightarrow> env \<Rightarrow> state \<Rightarrow> unit option \<times> state" where
  "Start fuel e st0 =
     (let st = st0\<lparr>wg := wg st0 + 1\<rparr> in
      case doInitialBlockPoolSync fuel e st of
        (None, st1) \<Rightarrow> (None, st1)
      | (Some err, st1) \<Rightarrow>
          (case doInitialMempoolSync fuel e (log_error err st1) of
             (None, st2) \<Rightarrow> (None, st2)
           | (Some err1, st2) \<Rightarrow> (Some (), log_error err1 st2)))"

text \<open>\<^verbatim>\<open>Stop\<close> cancels the context and waits for the wait group, which nothing decrements.\<close>

definition Stop :: "state \<Rightarrow> unit option \<times> state" where
  "Stop st0 =
     (let st = st0\<lparr>cancelled := True\<rparr> in
      if wg st = 0 then (Some (), st) else (None, st))"

text \<open>The states a sync manager goes through: built by \<open>NewSyncManager\<close>, then any calls.\<close>

inductive reachable :: "env \<Rightarrow> state \<Rightarrow> bool" for e :: env where
  reachable_new: "reachable e (NewSyncManager bp)"
| reachable_Start: "reachable e st \<Longrightarrow> reachable e (snd (Start fuel e st))"
| reachable_Stop: "reachable e st \<Longrightarrow> reachable e (snd (Stop st))"
| reachable_onNewTransaction: "reachable e st \<Longrightarrow> reachable e (onNewTransaction e message st)"
| reachable_processReceivedBlock:
    "reachable e st \<Longrightarrow> reachable e (snd (processReceivedBlock e st block))"
| reachable_doInitialBlockPoolSync:
    "reachable e st \<Longrightarrow> reachable e (snd (doInitialBlockPoolSync fuel e st))"
| reachable_doInitialMempoolSync:
    "reachable e st \<Longrightarrow> reachable e (snd (doInitialMempoolSync fuel e st))"

section \<open>Observing a run\<close>

text \<open>What a run added to the trace, and the requests and calls found in a trace.\<close>

definition events_since :: "state \<Rightarrow> state \<Rightarrow> event list" where
  "events_since st st' = drop (length (trace st)) (trace st')"

fun ranges :: "event list \<Rightarrow> (uint64 \<times> uint64) list" where
  "ranges [] = []"
| "ranges (EvCall m (GetRangeOfBlocksArg f t) # evs) = (f, t) # ranges evs"
| "ranges (ev # evs) = ranges evs"

fun batches :: "event list \<Rightarrow> bytes list list" where
  "batches [] = []"
| "batches (EvCall m (GetMempoolTxsArg items) # evs) = items # batches evs"
| "batches (ev # evs) = batches evs"

fun lookups :: "event list \<Rightarrow> uint64 list" where
  "lookups [] = []"
| "lookups (EvFetchBlockHeaderByHeight h # evs) = h # lookups evs"
| "lookups (ev # evs) = lookups evs"

fun stored_blocks :: "event list \<Rightarrow> Block list" where
  "stored_blocks [] = []"
| "stored_blocks (EvStoreBlock b # evs) = b # stored_blocks evs"
| "stored_blocks (ev # evs) = stored_blocks evs"

fun stored_txs :: "event list \<Rightarrow> Transaction list" where
  "stored_txs [] = []"
| "stored_txs (EvStoreTx tx # evs) = tx # stored_txs evs"
| "stored_txs (ev # evs) = stored_txs evs"


text \<open>
  A list of requested ranges that continues from the cursor \<open>t\<close>: each range starts
  right after the end of the one before it (after \<open>t\<close> for the first) and is not
  empty. \<open>last_to\<close> is where the list ends.
\<close>

fun contiguous :: "uint64 \<Rightarrow> (uint64 \<times> uint64) list \<Rightarrow> bool" where
  "contiguous t [] = True"
| "contiguous t ((f, t') # rs) = (unat f = unat t + 1 \<and> unat f \<le> unat t' \<and> contiguous t' rs)"

fun last_to :: "uint64 \<Rightarrow> (uint64 \<times> uint64) list \<Rightarrow> uint64" where
  "last_to t [] = t"
| "last_to t ((f, t') # rs) = last_to t' rs"

section \<open>Test data\<close>

text \<open>
  A small instance of the parameters, for evaluating the definitions: a peer at height
  1500 that answers every request without blocks, an empty mempool, an encoder and a
  database that never fail, and, in place of the Keccak-256 Merkle verifier, one whose
  hash is concatenation: the proof holds when the data followed by the hashes of the
  proof is the root.
\<close>

definition test_verify :: "bytes \<Rightarrow> Proof option \<Rightarrow> bytes \<Rightarrow> error + bool" where
  "test_verify data proof root =
     (case proof of
        None \<Rightarrow> Inl (ErrExternal ''proof is nil'')
      | Some p \<Rightarrow> Inr (data @ concat (Hashes p) = root))"

definition test_genesis :: Block where
  "test_genesis =
     \<lparr>Header = \<lparr>Height = 0, Hash = [0], LastHash = [], LastHashProof = None\<rparr>, Data = []\<rparr>"

definition test_env :: env where
  "test_env =
     \<lparr>MaxBlockCountForRetrieving = 1000,
      MaxTransactionCountForRetrieving = 1000,
      GenesisBlock = test_genesis,
      ValidateHash = (\<lambda>tx. TxHash tx = TxData tx),
      VerifyProofUsing = test_verify,
      GetLatestBlockHeight = (\<lambda>d. (0, None)),
      FetchBlockHeaderByHeight =
        (\<lambda>d h. if h = 0 then Inr (Header test_genesis) else Inl ErrBlockNotFound),
      GetTransaction = (\<lambda>hist h. Inl ErrTxNotFound),
      StoreTx = (\<lambda>hist tx. None),
      MarshalBlock = (\<lambda>b. Inr (Hash (Header b) @ concat (map TxHash (Data b)))),
      MarshalHeader = (\<lambda>h. Inr (Hash h)),
      BeginTxnError = (\<lambda>d. None),
      PutError = (\<lambda>d k v. None),
      CommitError = (\<lambda>d. None),
      LastBlockHeight = (\<lambda>hist. Inr \<lparr>ReplyHeight = 1500, ReplyError = None\<rparr>),
      GetRangeOfBlocks = (\<lambda>hist f t. Inr \<lparr>Blocks = [], FailedBlockHeights = []\<rparr>),
      Mempool = (\<lambda>hist. Inr \<lparr>Inventory = [ [1] ]\<rparr>),
      GetMempoolTxs = (\<lambda>hist items. Inr \<lparr>Transactions = [], TxsError = None\<rparr>)\<rparr>"

definition test_tx :: Transaction where
  "test_tx = \<lparr>TxHash = [0], MerkleProof = Some \<lparr>Hashes = [ [1] ], Index = 0\<rparr>, TxData = [0]\<rparr>"

definition test_block :: Block where
  "test_block =
     \<lparr>Header = \<lparr>Height = 1, Hash = [0, 1], LastHash = [0],
                LastHashProof = Some \<lparr>Hashes = [ [1] ], Index = 0\<rparr>\<rparr>,
      Data = [test_tx]\<rparr>"

definition test_state :: state where
  "test_state = NewSyncManager Map.empty"

definition test_message :: GenericMessage where
  "test_message = \<lparr>Payload = TransactionPayload test_tx\<rparr>"

definition test_env_storage_failure :: env where
  "test_env_storage_failure =
     test_env\<lparr>GetLatestBlockHeight := \<lambda>d. (7, Some (ErrExternal ''mdb_get: MDB_CORRUPTED''))\<rparr>"

definition test_bad_block :: Block where
  "test_bad_block =
     \<lparr>Header = \<lparr>Height = 5, Hash = [9], LastHash = [8], LastHashProof = None\<rparr>, Data = []\<rparr>"


definition test_env_rpc_failure :: env where
  "test_env_rpc_failure =
     test_env\<lparr>GetRangeOfBlocks := \<lambda>hist f t. Inl (ErrExternal ''stream reset'')\<rparr>"

definition test_env_put_failure :: env where
  "test_env_put_failure =
     test_env\<lparr>PutError :=
       \<lambda>d k v. if k = ''header_0001'' then Some (ErrExternal ''MDB_MAP_FULL'') else None\<rparr>"

definition test_message_invalid :: GenericMessage where
  "test_message_invalid = \<lparr>Payload = TransactionPayload (test_tx\<lparr>TxData := [9]\<rparr>)\<rparr>"

definition test_message_other :: GenericMessage where
  "test_message_other = \<lparr>Payload = OtherPayload [1, 2]\<rparr>"




section \<open>The test data, field by field\<close>

lemma test_env_fields:
  "MaxBlockCountForRetrieving test_env = 1000"
  "MaxTransactionCountForRetrieving test_env = 1000"
  "GenesisBlock test_env = test_genesis"
  "ValidateHash test_env = (\<lambda>tx. TxHash tx = TxData tx)"
  "VerifyProofUsing test_env = test_verify"
  "GetLatestBlockHeight test_env = (\<lambda>d. (0, None))"
  "FetchBlockHeaderByHeight test_env =
     (\<lambda>d h. if h = 0 then Inr (Header test_genesis) else Inl ErrBlockNotFound)"
  "GetTransaction test_env = (\<lambda>hist h. Inl ErrTxNotFound)"
  "StoreTx test_env = (\<lambda>hist tx. None)"
  "MarshalBlock test_env = (\<lambda>b. Inr (Hash (Header b) @ concat (map TxHash (Data b))))"
  "MarshalHeader test_env = (\<lambda>h. Inr (Hash h))"
  "BeginTxnError test_env = (\<lambda>d. None)"
  "PutError test_env = (\<lambda>d k v. None)"
  "CommitError test_env = (\<lambda>d. None)"
  "LastBlockHeight test_env = (\<lambda>hist. Inr \<lparr>ReplyHeight = 1500, ReplyError = None\<rparr>)"
  "GetRangeOfBlocks test_env = (\<lambda>hist f t. Inr \<lparr>Blocks = [], FailedBlockHeights = []\<rparr>)"
  "Mempool test_env = (\<lambda>hist. Inr \<lparr>Inventory = [ [1] ]\<rparr>)"
  "GetMempoolTxs test_env = (\<lambda>hist items. Inr \<lparr>Transactions = [], TxsError = None\<rparr>)"
  by (simp_all add: test_env_def)



lemma test_env_rpc_failure_fields:
  "MaxBlockCountForRetrieving test_env_rpc_failure = 1000"
  "GetLatestBlockHeight test_env_rpc_failure = (\<lambda>d. (0, None))"
  "LastBlockHeight test_env_rpc_failure = (\<lambda>hist. Inr \<lparr>ReplyHeight = 1500, ReplyError = None\<rparr>)"
  "GetRangeOfBlocks test_env_rpc_failure = (\<lambda>hist f t. Inl (ErrExternal ''stream reset''))"
  by (simp_all add: test_env_rpc_failure_def test_env_def)


section \<open>Block pool: StoreBlock\<close>

lemma hi_nibble_lt: "unat (drop_bit 4 (v::byte)) < 16"
proof -
  have "unat v < 2 ^ LENGTH(8)" by (rule unsigned_less)
  then have "unat v < 256" by simp
  then have "unat v div 16 < 16" by simp
  then show ?thesis by (simp add: unat_drop_bit_eq drop_bit_eq_div unat_div)
qed

lemma lo_nibble_lt: "unat ((v::byte) AND 0x0f) < 16"
proof -
  have "v AND 0x0f = take_bit 4 v" by (simp add: take_bit_eq_mask mask_eq_exp_minus_1)
  then have "unat (v AND 0x0f) = take_bit 4 (unat v)" by (simp add: unsigned_take_bit_eq)
  also have "\<dots> < 2 ^ 4" by (rule take_bit_nat_less_exp)
  finally show ?thesis by simp
qed

lemma hextable_nth_mem: "i < 16 \<Longrightarrow> hextable ! i \<in> set hextable"
  by (rule nth_mem) (simp add: hextable_def)

lemma EncodeToString_lowercase_hex: "set (EncodeToString src) \<subseteq> set ''0123456789abcdef''"
proof -
  have "set (EncodeToString src) \<subseteq> set hextable"
    by (auto simp: EncodeToString_def hi_nibble_lt lo_nibble_lt hextable_nth_mem)
  then show ?thesis by (simp add: hextable_def)
qed

lemma EncodeToString_length: "length (EncodeToString src) = 2 * length src"
  by (induction src) (simp_all add: EncodeToString_def)

lemma block_header_keys_distinct: "''block_'' @ h \<noteq> ''header_'' @ h'"
  by simp

text \<open>The two characters of a byte are the hexadecimal digits of its two nibbles.\<close>

lemma EncodeToString_Cons:
  "EncodeToString (v # src) =
     hextable ! (unat v div 16) # hextable ! (unat v mod 16) # EncodeToString src"
proof -
  have "unat (drop_bit 4 v) = unat v div 16"
    by (simp add: unat_drop_bit_eq drop_bit_eq_div unat_div)
  moreover have "unat (v AND 0x0f) = unat v mod 16"
  proof -
    have "v AND 0x0f = take_bit 4 v" by (simp add: take_bit_eq_mask mask_eq_exp_minus_1)
    then have "unat (v AND 0x0f) = take_bit 4 (unat v)" by (simp add: unsigned_take_bit_eq)
    then show ?thesis by (simp add: take_bit_eq_mod)
  qed
  ultimately show ?thesis by (simp add: EncodeToString_def)
qed

text \<open>\<open>StoreBlock\<close> commits both puts or changes nothing.\<close>

lemma StoreBlock_commits_or_aborts:
  "StoreBlock e d block = (err, d') \<Longrightarrow>
     (let blockHash = EncodeToString (Hash (Header block));
          blockKey = ''block_'' @ blockHash;
          headerKey = ''header_'' @ blockHash
      in blockKey \<noteq> headerKey \<and>
         set blockHash \<subseteq> set ''0123456789abcdef'' \<and>
         ((err = None \<and>
           (\<exists>data headerData.
              MarshalBlock e block = Inr data \<and>
              MarshalHeader e (Header block) = Inr headerData \<and>
              BeginTxnError e d = None \<and>
              PutError e d blockKey data = None \<and>
              PutError e (d(blockKey \<mapsto> data)) headerKey headerData = None \<and>
              CommitError e (d(blockKey \<mapsto> data, headerKey \<mapsto> headerData)) = None \<and>
              d' = d(blockKey \<mapsto> data, headerKey \<mapsto> headerData)))
          \<or>
          (err \<noteq> None \<and> d' = d \<and>
           \<not> (\<exists>data headerData.
              MarshalBlock e block = Inr data \<and>
              MarshalHeader e (Header block) = Inr headerData \<and>
              BeginTxnError e d = None \<and>
              PutError e d blockKey data = None \<and>
              PutError e (d(blockKey \<mapsto> data)) headerKey headerData = None \<and>
              CommitError e (d(blockKey \<mapsto> data, headerKey \<mapsto> headerData)) = None))))"
  unfolding Let_def
  apply (intro conjI)
    apply simp
   apply (rule EncodeToString_lowercase_hex)
  apply (auto simp: StoreBlock_def Update_def Put_def DefaultBlockPrefix_def DefaultBlockHeaderPrefix_def Let_def
         split: option.splits sum.splits prod.splits if_splits)
  done

lemma EncodeToString_nth:
  "i < length src \<Longrightarrow>
     EncodeToString src ! (2 * i) = hextable ! (unat (src ! i) div 16) \<and>
     EncodeToString src ! (2 * i + 1) = hextable ! (unat (src ! i) mod 16)"
proof (induction src arbitrary: i)
  case Nil
  then show ?case by simp
next
  case (Cons v src)
  show ?case
  proof (cases i)
    case 0
    then show ?thesis by (simp add: EncodeToString_Cons)
  next
    case (Suc j)
    with Cons.prems have j: "j < length src" by simp
    from Cons.IH [OF j] Suc show ?thesis by (simp add: EncodeToString_Cons)
  qed
qed

text \<open>
  C5. \<open>StoreBlock\<close> either returns nil, and then the database is the old one with
  exactly two keys written, \<open>block_\<close> and \<open>header_\<close> followed by the lowercase
  hexadecimal form of the hash of the header, holding the encoded block and the encoded
  header; or it returns an error and the database is unchanged. It returns nil exactly
  when both encodings, the start of the transaction, both puts and the commit succeed.
  The hexadecimal form has two characters for each byte of the hash, the digit of the
  high nibble and then the digit of the low nibble, out of \<open>0123456789abcdef\<close>.
\<close>

theorem StoreBlock_atomic:
  "StoreBlock e d block = (err, d') \<Longrightarrow>
     (let hash = Hash (Header block);
          blockHash = EncodeToString hash;
          blockKey = ''block_'' @ blockHash;
          headerKey = ''header_'' @ blockHash
      in blockKey \<noteq> headerKey \<and>
         set blockHash \<subseteq> set ''0123456789abcdef'' \<and>
         length blockHash = 2 * length hash \<and>
         (\<forall>i < length hash.
            blockHash ! (2 * i) = ''0123456789abcdef'' ! (unat (hash ! i) div 16) \<and>
            blockHash ! (2 * i + 1) = ''0123456789abcdef'' ! (unat (hash ! i) mod 16)) \<and>
         ((err = None \<and>
           (\<exists>data headerData.
              MarshalBlock e block = Inr data \<and>
              MarshalHeader e (Header block) = Inr headerData \<and>
              BeginTxnError e d = None \<and>
              PutError e d blockKey data = None \<and>
              PutError e (d(blockKey \<mapsto> data)) headerKey headerData = None \<and>
              CommitError e (d(blockKey \<mapsto> data, headerKey \<mapsto> headerData)) = None \<and>
              d' = d(blockKey \<mapsto> data, headerKey \<mapsto> headerData)))
          \<or>
          (err \<noteq> None \<and> d' = d \<and>
           \<not> (\<exists>data headerData.
              MarshalBlock e block = Inr data \<and>
              MarshalHeader e (Header block) = Inr headerData \<and>
              BeginTxnError e d = None \<and>
              PutError e d blockKey data = None \<and>
              PutError e (d(blockKey \<mapsto> data)) headerKey headerData = None \<and>
              CommitError e (d(blockKey \<mapsto> data, headerKey \<mapsto> headerData)) = None))))"
proof -
  assume run: "StoreBlock e d block = (err, d')"
  have digits: "\<forall>i < length (Hash (Header block)).
      EncodeToString (Hash (Header block)) ! (2 * i)
        = ''0123456789abcdef'' ! (unat (Hash (Header block) ! i) div 16) \<and>
      EncodeToString (Hash (Header block)) ! (2 * i + 1)
        = ''0123456789abcdef'' ! (unat (Hash (Header block) ! i) mod 16)"
    using EncodeToString_nth [of _ "Hash (Header block)"] by (simp add: hextable_def)
  from StoreBlock_commits_or_aborts [OF run] digits
    EncodeToString_length [of "Hash (Header block)"]
  show ?thesis unfolding Let_def by blast
qed

lemma test_EncodeToString: "EncodeToString [0, 1] = ''0001''"
  by (simp add: EncodeToString_def hextable_def)

lemma test_StoreBlock:
  "StoreBlock test_env Map.empty test_block =
     (None, [''block_0001'' \<mapsto> [0, 1, 0], ''header_0001'' \<mapsto> [0, 1] ])"
  by (simp add: StoreBlock_def Update_def Put_def test_env_fields test_block_def test_tx_def
        DefaultBlockPrefix_def DefaultBlockHeaderPrefix_def test_EncodeToString Let_def)

lemma test_StoreBlock_put_failure:
  "StoreBlock test_env_put_failure Map.empty test_block =
     (Some (ErrExternal ''MDB_MAP_FULL''), Map.empty)"
  by (simp add: StoreBlock_def Update_def Put_def test_env_put_failure_def test_env_fields
        test_block_def test_tx_def DefaultBlockPrefix_def DefaultBlockHeaderPrefix_def
        test_EncodeToString Let_def)

theorem StoreBlock_atomic_witness:
  "StoreBlock test_env Map.empty test_block =
     (None, [''block_0001'' \<mapsto> [0, 1, 0], ''header_0001'' \<mapsto> [0, 1] ]) \<and>
   (\<exists>data headerData.
      MarshalBlock test_env test_block = Inr data \<and>
      MarshalHeader test_env (Header test_block) = Inr headerData \<and>
      [''block_0001'' \<mapsto> [0, 1, 0], ''header_0001'' \<mapsto> [0, 1] ] =
        Map.empty(''block_'' @ EncodeToString (Hash (Header test_block)) \<mapsto> data,
                  ''header_'' @ EncodeToString (Hash (Header test_block)) \<mapsto> headerData)) \<and>
   (1::nat) < length (Hash (Header test_block)) \<and>
   EncodeToString (Hash (Header test_block)) ! (2 * 1) =
     ''0123456789abcdef'' ! (unat (Hash (Header test_block) ! 1) div 16) \<and>
   EncodeToString (Hash (Header test_block)) ! (2 * 1 + 1) =
     ''0123456789abcdef'' ! (unat (Hash (Header test_block) ! 1) mod 16) \<and>
   length (EncodeToString (Hash (Header test_block))) = 2 * length (Hash (Header test_block)) \<and>
   StoreBlock test_env_put_failure Map.empty test_block =
     (Some (ErrExternal ''MDB_MAP_FULL''), Map.empty) \<and>
   \<not> (\<exists>data headerData.
      MarshalBlock test_env_put_failure test_block = Inr data \<and>
      MarshalHeader test_env_put_failure (Header test_block) = Inr headerData \<and>
      BeginTxnError test_env_put_failure Map.empty = None \<and>
      PutError test_env_put_failure Map.empty
        (''block_'' @ EncodeToString (Hash (Header test_block))) data = None \<and>
      PutError test_env_put_failure
        (Map.empty(''block_'' @ EncodeToString (Hash (Header test_block)) \<mapsto> data))
        (''header_'' @ EncodeToString (Hash (Header test_block))) headerData = None \<and>
      CommitError test_env_put_failure
        (Map.empty(''block_'' @ EncodeToString (Hash (Header test_block)) \<mapsto> data,
                   ''header_'' @ EncodeToString (Hash (Header test_block)) \<mapsto> headerData))
        = None)"
proof -
  have h: "StoreBlock test_env Map.empty test_block =
     (None, [''block_0001'' \<mapsto> [0, 1, 0], ''header_0001'' \<mapsto> [0, 1] ])"
    by (rule test_StoreBlock)
  have i: "(1::nat) < length (Hash (Header test_block))"
    by (simp add: test_block_def)
  from StoreBlock_atomic [OF h] have a:
    "\<exists>data headerData.
      MarshalBlock test_env test_block = Inr data \<and>
      MarshalHeader test_env (Header test_block) = Inr headerData \<and>
      [''block_0001'' \<mapsto> [0, 1, 0], ''header_0001'' \<mapsto> [0, 1] ] =
        Map.empty(''block_'' @ EncodeToString (Hash (Header test_block)) \<mapsto> data,
                  ''header_'' @ EncodeToString (Hash (Header test_block)) \<mapsto> headerData)"
    unfolding Let_def by blast
  from StoreBlock_atomic [OF h] i have g:
    "EncodeToString (Hash (Header test_block)) ! (2 * 1) =
       ''0123456789abcdef'' ! (unat (Hash (Header test_block) ! 1) div 16) \<and>
     EncodeToString (Hash (Header test_block)) ! (2 * 1 + 1) =
       ''0123456789abcdef'' ! (unat (Hash (Header test_block) ! 1) mod 16)"
    unfolding Let_def by blast
  from StoreBlock_atomic [OF h] have l:
    "length (EncodeToString (Hash (Header test_block))) = 2 * length (Hash (Header test_block))"
    unfolding Let_def by blast
  have h2: "StoreBlock test_env_put_failure Map.empty test_block =
     (Some (ErrExternal ''MDB_MAP_FULL''), Map.empty)"
    by (rule test_StoreBlock_put_failure)
  from StoreBlock_atomic [OF h2] have b:
    "\<not> (\<exists>data headerData.
      MarshalBlock test_env_put_failure test_block = Inr data \<and>
      MarshalHeader test_env_put_failure (Header test_block) = Inr headerData \<and>
      BeginTxnError test_env_put_failure Map.empty = None \<and>
      PutError test_env_put_failure Map.empty
        (''block_'' @ EncodeToString (Hash (Header test_block))) data = None \<and>
      PutError test_env_put_failure
        (Map.empty(''block_'' @ EncodeToString (Hash (Header test_block)) \<mapsto> data))
        (''header_'' @ EncodeToString (Hash (Header test_block))) headerData = None \<and>
      CommitError test_env_put_failure
        (Map.empty(''block_'' @ EncodeToString (Hash (Header test_block)) \<mapsto> data,
                   ''header_'' @ EncodeToString (Hash (Header test_block)) \<mapsto> headerData))
        = None)"
    unfolding Let_def by blast
  from h a i g l h2 b show ?thesis by blast
qed

section \<open>processReceivedBlock\<close>

lemma checkTransactions_None_iff:
  "checkTransactions e block txs = None \<longleftrightarrow>
     (\<forall>tx \<in> set txs.
        MerkleProof tx \<noteq> None \<and>
        VerifyProofUsing e (TxHash tx) (MerkleProof tx) (Hash (Header block)) = Inr True \<and>
        ValidateHash e tx)"
  by (induction txs) (auto split: sum.splits)

lemma blockpool_StoreBlock_eq:
  "blockpool_StoreBlock e st block =
     (fst (StoreBlock e (blockpool st) block),
      st\<lparr>blockpool := snd (StoreBlock e (blockpool st) block),
         trace := trace st @ [EvStoreBlock block]\<rparr>)"
  by (simp add: blockpool_StoreBlock_def record_event_def split: prod.splits)

lemma processReceivedBlock_valid:
  assumes "FetchBlockHeaderByHeight e (blockpool st) (Height (Header block) - 1) = Inr prev"
    and "LastHash (Header block) = Hash prev"
    and "VerifyProofUsing e (Hash prev) (LastHashProof (Header block)) (Hash (Header block)) = Inr True"
    and "checkTransactions e block (Data block) = None"
  shows "processReceivedBlock e st block =
     (case fst (StoreBlock e (blockpool st) block) of
        None \<Rightarrow> None
      | Some err \<Rightarrow> Some (Errorf ''failed to store block in blockpool: %s'' [ArgError err]),
      st\<lparr>blockpool := snd (StoreBlock e (blockpool st) block),
         trace := trace st @ [EvFetchBlockHeaderByHeight (Height (Header block) - 1),
                              EvStoreBlock block]\<rparr>)"
  using assms
  by (simp add: processReceivedBlock_def blockpool_StoreBlock_eq record_event_def Let_def
      split: option.splits)

lemma processReceivedBlock_invalid:
  assumes "\<not> (\<exists>prev.
       FetchBlockHeaderByHeight e (blockpool st) (Height (Header block) - 1) = Inr prev \<and>
       LastHash (Header block) = Hash prev \<and>
       VerifyProofUsing e (Hash prev) (LastHashProof (Header block)) (Hash (Header block)) = Inr True \<and>
       checkTransactions e block (Data block) = None)"
  shows "fst (processReceivedBlock e st block) \<noteq> None \<and>
     snd (processReceivedBlock e st block) =
       st\<lparr>trace := trace st @ [EvFetchBlockHeaderByHeight (Height (Header block) - 1)]\<rparr>"
  using assms
  by (auto simp: processReceivedBlock_def record_event_def Let_def
      split: option.splits sum.splits)


text \<open>
  C1, as amended. \<open>processReceivedBlock\<close> calls \<open>StoreBlock\<close>, once and on the block
  itself, exactly when every check passes: a header is found at the height of the block
  minus one, \<open>LastHash\<close> of the block is the hash of that header, \<open>LastHashProof\<close>
  verifies the hash of that header as data under the hash of the block as root, and every
  transaction of the block has a proof that verifies its hash under the hash of the block
  and passes \<open>ValidateHash\<close>. When a check fails an error is returned, \<open>StoreBlock\<close>
  is not called and the database of the pool is unchanged.
\<close>

theorem processReceivedBlock_stores_only_validated:
  "processReceivedBlock e st block = (err, st') \<Longrightarrow>
   (let validated =
      (\<exists>prev.
         FetchBlockHeaderByHeight e (blockpool st) (Height (Header block) - 1) = Inr prev \<and>
         LastHash (Header block) = Hash prev \<and>
         VerifyProofUsing e (Hash prev) (LastHashProof (Header block)) (Hash (Header block))
           = Inr True \<and>
         (\<forall>tx \<in> set (Data block).
            MerkleProof tx \<noteq> None \<and>
            VerifyProofUsing e (TxHash tx) (MerkleProof tx) (Hash (Header block)) = Inr True \<and>
            ValidateHash e tx))
    in (validated \<longrightarrow>
          stored_blocks (events_since st st') = [block] \<and>
          blockpool st' = snd (StoreBlock e (blockpool st) block) \<and>
          (err = None \<longleftrightarrow> fst (StoreBlock e (blockpool st) block) = None)) \<and>
       (\<not> validated \<longrightarrow>
          err \<noteq> None \<and>
          stored_blocks (events_since st st') = [] \<and>
          blockpool st' = blockpool st))"
proof -
  assume run: "processReceivedBlock e st block = (err, st')"
  let ?validated = "\<exists>prev.
         FetchBlockHeaderByHeight e (blockpool st) (Height (Header block) - 1) = Inr prev \<and>
         LastHash (Header block) = Hash prev \<and>
         VerifyProofUsing e (Hash prev) (LastHashProof (Header block)) (Hash (Header block))
           = Inr True \<and>
         checkTransactions e block (Data block) = None"
  have yes: "stored_blocks (events_since st st') = [block] \<and>
          blockpool st' = snd (StoreBlock e (blockpool st) block) \<and>
          (err = None \<longleftrightarrow> fst (StoreBlock e (blockpool st) block) = None)" if v: ?validated
  proof -
    from v obtain prev where
      "FetchBlockHeaderByHeight e (blockpool st) (Height (Header block) - 1) = Inr prev"
      "LastHash (Header block) = Hash prev"
      "VerifyProofUsing e (Hash prev) (LastHashProof (Header block)) (Hash (Header block)) = Inr True"
      "checkTransactions e block (Data block) = None"
      by blast
    from processReceivedBlock_valid [OF this] run show ?thesis
      by (auto simp: events_since_def split: option.splits)
  qed
  have no: "err \<noteq> None \<and> stored_blocks (events_since st st') = [] \<and>
      blockpool st' = blockpool st" if "\<not> ?validated"
    using processReceivedBlock_invalid [OF that] run by (auto simp: events_since_def)
  from yes no show ?thesis
    unfolding Let_def checkTransactions_None_iff by blast
qed

lemma test_processReceivedBlock:
  "processReceivedBlock test_env test_state test_block =
     (None,
      test_state\<lparr>blockpool := [''block_0001'' \<mapsto> [0, 1, 0], ''header_0001'' \<mapsto> [0, 1] ],
                 trace := trace test_state @ [EvFetchBlockHeaderByHeight 0, EvStoreBlock test_block]\<rparr>)"
proof -
  have bp: "blockpool test_state = Map.empty"
    by (simp add: test_state_def NewSyncManager_def)
  have h: "Height (Header test_block) - 1 = 0"
    by (simp add: test_block_def)
  have "processReceivedBlock test_env test_state test_block =
     (case fst (StoreBlock test_env (blockpool test_state) test_block) of
        None \<Rightarrow> None
      | Some err \<Rightarrow> Some (Errorf ''failed to store block in blockpool: %s'' [ArgError err]),
      test_state\<lparr>blockpool := snd (StoreBlock test_env (blockpool test_state) test_block),
         trace := trace test_state @ [EvFetchBlockHeaderByHeight (Height (Header test_block) - 1),
                              EvStoreBlock test_block]\<rparr>)"
    by (rule processReceivedBlock_valid [where prev = "Header test_genesis"])
       (simp_all add: test_env_fields h test_block_def test_genesis_def
          test_verify_def test_tx_def)
  then show ?thesis by (simp add: bp test_StoreBlock h)
qed

text \<open>
  C1 as stated gives \<open>LastHashProof\<close> the opposite roles: the hash of the block as
  data under the hash of the predecessor as root. The test block is stored although
  its proof does not verify in that direction.
\<close>

theorem processReceivedBlock_last_hash_proof_roles_counterexample:
  "fst (processReceivedBlock test_env test_state test_block) = None \<and>
   stored_blocks
     (events_since test_state (snd (processReceivedBlock test_env test_state test_block)))
     = [test_block] \<and>
   FetchBlockHeaderByHeight test_env (blockpool test_state) (Height (Header test_block) - 1)
     = Inr (Header test_genesis) \<and>
   VerifyProofUsing test_env (Hash (Header test_block)) (LastHashProof (Header test_block))
     (Hash (Header test_genesis)) \<noteq> Inr True"
  by (simp add: test_processReceivedBlock events_since_def test_env_fields)
     (simp add: test_block_def test_genesis_def test_verify_def)

theorem processReceivedBlock_stores_only_validated_witness:
  "processReceivedBlock test_env test_state test_block =
     (None,
      test_state\<lparr>blockpool := [''block_0001'' \<mapsto> [0, 1, 0], ''header_0001'' \<mapsto> [0, 1] ],
                 trace := trace test_state @ [EvFetchBlockHeaderByHeight 0, EvStoreBlock test_block]\<rparr>) \<and>
   (\<exists>prev.
      FetchBlockHeaderByHeight test_env (blockpool test_state) (Height (Header test_block) - 1)
        = Inr prev \<and>
      LastHash (Header test_block) = Hash prev \<and>
      VerifyProofUsing test_env (Hash prev) (LastHashProof (Header test_block))
        (Hash (Header test_block)) = Inr True \<and>
      (\<forall>tx \<in> set (Data test_block).
         MerkleProof tx \<noteq> None \<and>
         VerifyProofUsing test_env (TxHash tx) (MerkleProof tx) (Hash (Header test_block))
           = Inr True \<and>
         ValidateHash test_env tx)) \<and>
   FetchBlockHeaderByHeight test_env (blockpool test_state) (Height (Header test_bad_block) - 1)
     = Inl ErrBlockNotFound \<and>
   fst (processReceivedBlock test_env test_state test_bad_block) \<noteq> None \<and>
   stored_blocks (events_since test_state
     (snd (processReceivedBlock test_env test_state test_bad_block))) = [] \<and>
   blockpool (snd (processReceivedBlock test_env test_state test_bad_block))
     = blockpool test_state"
proof -
  note run = test_processReceivedBlock
  have n: "fst (processReceivedBlock test_env test_state test_block) = None"
    by (simp add: run)
  from processReceivedBlock_stores_only_validated [OF run] n have a:
    "\<exists>prev.
      FetchBlockHeaderByHeight test_env (blockpool test_state) (Height (Header test_block) - 1)
        = Inr prev \<and>
      LastHash (Header test_block) = Hash prev \<and>
      VerifyProofUsing test_env (Hash prev) (LastHashProof (Header test_block))
        (Hash (Header test_block)) = Inr True \<and>
      (\<forall>tx \<in> set (Data test_block).
         MerkleProof tx \<noteq> None \<and>
         VerifyProofUsing test_env (TxHash tx) (MerkleProof tx) (Hash (Header test_block))
           = Inr True \<and>
         ValidateHash test_env tx)"
    unfolding Let_def by blast
  have f: "FetchBlockHeaderByHeight test_env (blockpool test_state)
      (Height (Header test_bad_block) - 1) = Inl ErrBlockNotFound"
    by (simp add: test_env_fields test_bad_block_def)
  have run2: "processReceivedBlock test_env test_state test_bad_block =
      (fst (processReceivedBlock test_env test_state test_bad_block),
       snd (processReceivedBlock test_env test_state test_bad_block))"
    by simp
  from processReceivedBlock_stores_only_validated [OF run2] f have b:
    "fst (processReceivedBlock test_env test_state test_bad_block) \<noteq> None \<and>
     stored_blocks (events_since test_state
       (snd (processReceivedBlock test_env test_state test_bad_block))) = [] \<and>
     blockpool (snd (processReceivedBlock test_env test_state test_bad_block))
       = blockpool test_state"
    unfolding Let_def by auto
  from run a f b show ?thesis by blast
qed

section \<open>What every operation leaves alone\<close>

text \<open>Each operation only adds to the trace, and none assigns \<open>initialSyncCompleted\<close>.\<close>

lemma trace_record_event [simp]: "trace (record_event ev st) = trace st @ [ev]"
  by (simp add: record_event_def)

lemma blockpool_record_event [simp]: "blockpool (record_event ev st) = blockpool st"
  by (simp add: record_event_def)

lemma flag_record_event [simp]:
  "initialSyncCompleted (record_event ev st) = initialSyncCompleted st"
  by (simp add: record_event_def)

lemma processReceivedBlock_trace:
  "\<exists>evs. trace (snd (processReceivedBlock e st block)) =
     trace st @ EvFetchBlockHeaderByHeight (Height (Header block) - 1) # evs \<and>
     lookups evs = []"
  by (auto simp: processReceivedBlock_def Let_def blockpool_StoreBlock_eq
      split: sum.splits option.splits)

lemma processReceivedBlock_flag:
  "initialSyncCompleted (snd (processReceivedBlock e st block)) = initialSyncCompleted st"
  by (auto simp: processReceivedBlock_def Let_def blockpool_StoreBlock_eq
      split: sum.splits option.splits)

lemma processReceivedBlock_prefix:
  "prefix (trace st) (trace (snd (processReceivedBlock e st block)))"
  using processReceivedBlock_trace [of e st block] by (auto simp: prefix_def)

lemma prefix_record_event: "prefix (trace st) (trace st1) \<Longrightarrow> prefix (trace st) (trace (record_event ev st1))"
  by (simp add: prefix_def) (metis append.assoc)

lemma processBlocks_prefix: "prefix (trace st) (trace (processBlocks e st bs))"
proof (induction bs arbitrary: st)
  case Nil
  show ?case by simp
next
  case (Cons b bs)
  obtain err st1 where r: "processReceivedBlock e st b = (err, st1)"
    by (cases "processReceivedBlock e st b")
  have p1: "prefix (trace st) (trace st1)"
    using processReceivedBlock_prefix [of st e b] r by simp
  show ?case
  proof (cases err)
    case None
    with r have eq: "processBlocks e st (b # bs) = processBlocks e st1 bs" by simp
    show ?thesis unfolding eq by (rule prefix_order.trans [OF p1 Cons.IH])
  next
    case (Some x)
    let ?st2 = "record_event (EvWarnf ''unable to process block %d: %s''
                  [ArgUint64 (Height (Header b)), ArgError x]) st1"
    from Some r have eq: "processBlocks e st (b # bs) = processBlocks e ?st2 bs" by simp
    have p2: "prefix (trace st) (trace ?st2)"
      by (rule prefix_record_event [OF p1])
    show ?thesis unfolding eq by (rule prefix_order.trans [OF p2 Cons.IH])
  qed
qed

lemma processBlocks_flag:
  "initialSyncCompleted (processBlocks e st bs) = initialSyncCompleted st"
proof (induction bs arbitrary: st)
  case Nil
  show ?case by simp
next
  case (Cons b bs)
  obtain err st1 where r: "processReceivedBlock e st b = (err, st1)"
    by (cases "processReceivedBlock e st b")
  have "initialSyncCompleted st1 = initialSyncCompleted st"
    using processReceivedBlock_flag [of e st b] r by simp
  with r show ?case by (cases err) (simp_all add: Cons.IH)
qed

lemma rpc_GetRangeOfBlocks_snd [simp]:
  "snd (rpc_GetRangeOfBlocks e st f t) =
     record_event (EvCall ''GetRangeOfBlocks'' (GetRangeOfBlocksArg f t)) st"
  by (simp add: rpc_GetRangeOfBlocks_def)

lemma fetchBlocks_prefix:
  "prefix (trace st) (trace (snd (fetchBlocks fuel e hc t rcv st)))"
proof (induction fuel arbitrary: hc t rcv st)
  case 0
  show ?case by simp
next
  case (Suc fuel)
  show ?case
    apply (simp add: Let_def rpc_GetRangeOfBlocks_def split: sum.splits)
    apply (intro conjI impI allI)
      apply (rule prefix_order.trans [OF _ Suc.IH], simp add: prefix_def)+
    done
qed

lemma fetchBlocks_flag:
  "initialSyncCompleted (snd (fetchBlocks fuel e hc t rcv st)) = initialSyncCompleted st"
  by (induction fuel arbitrary: hc t rcv st)
     (simp_all add: Let_def rpc_GetRangeOfBlocks_def split: sum.splits)

lemma rpc_LastBlockHeight_snd [simp]:
  "snd (rpc_LastBlockHeight e st) = record_event (EvCall ''LastBlockHeight'' NilArg) st"
  by (simp add: rpc_LastBlockHeight_def)

lemma rpc_Mempool_snd [simp]:
  "snd (rpc_Mempool e st) = record_event (EvCall ''Mempool'' NilArg) st"
  by (simp add: rpc_Mempool_def)

lemma rpc_GetMempoolTxs_snd [simp]:
  "snd (rpc_GetMempoolTxs e st items) =
     record_event (EvCall ''GetMempoolTxs'' (GetMempoolTxsArg items)) st"
  by (simp add: rpc_GetMempoolTxs_def)

lemma prefix_record_event_self: "prefix (trace st) (trace (record_event ev st))"
  by (simp add: prefix_def)

lemma syncWithPeer_prefix: "prefix (trace st) (trace (snd (syncWithPeer fuel e h st)))"
proof -
  let ?st1 = "record_event (EvCall ''LastBlockHeight'' NilArg) st"
  have p1: "prefix (trace st) (trace ?st1)" by (rule prefix_record_event_self)
  have p2: "prefix (trace st) (trace (snd (fetchBlocks fuel e hc t rcv ?st1)))" for hc t rcv
    by (rule prefix_order.trans [OF p1 fetchBlocks_prefix])
  have p3: "prefix (trace st) (trace (processBlocks e st2 bs))"
    if "fetchBlocks fuel e hc t rcv ?st1 = (r, st2)" for hc t rcv r st2 bs
  proof -
    have "prefix (trace st) (trace st2)" using p2 [of hc t rcv] that by simp
    then show ?thesis by (rule prefix_order.trans [OF _ processBlocks_prefix])
  qed
  show ?thesis
    using p1 p2 p3
    by (simp add: syncWithPeer_def rpc_LastBlockHeight_def split: sum.splits option.splits prod.splits)
       (metis snd_conv)
qed

lemma syncWithPeer_flag:
  "initialSyncCompleted (snd (syncWithPeer fuel e h st)) = initialSyncCompleted st"
proof -
  let ?st1 = "record_event (EvCall ''LastBlockHeight'' NilArg) st"
  have f2: "initialSyncCompleted st2 = initialSyncCompleted st"
    if "fetchBlocks fuel e hc t rcv ?st1 = (r, st2)" for hc t rcv r st2
    using fetchBlocks_flag [of fuel e hc t rcv ?st1] that by simp
  show ?thesis
    using f2
    by (simp add: syncWithPeer_def rpc_LastBlockHeight_def processBlocks_flag
          split: sum.splits option.splits prod.splits)
qed


lemma doInitialBlockPoolSync_flag:
  "initialSyncCompleted (snd (doInitialBlockPoolSync fuel e st)) = initialSyncCompleted st"
  by (simp add: doInitialBlockPoolSync_def Let_def blockpool_StoreBlock_eq syncWithPeer_flag
        split: prod.splits option.splits)

lemma doInitialBlockPoolSync_prefix:
  "prefix (trace st) (trace (snd (doInitialBlockPoolSync fuel e st)))"
proof -
  let ?st1 = "record_event EvGetLatestBlockHeight st"
  let ?st2 = "?st1\<lparr>blockpool := snd (StoreBlock e (blockpool st) (GenesisBlock e)),
                 trace := trace ?st1 @ [EvStoreBlock (GenesisBlock e)]\<rparr>"
  have p1: "prefix (trace st) (trace ?st1)" by (rule prefix_record_event_self)
  have p2: "prefix (trace st) (trace ?st2)" by (simp add: prefix_def)
  have q1: "prefix (trace st) (trace (snd (syncWithPeer fuel e h ?st1)))" for h
    by (rule prefix_order.trans [OF p1 syncWithPeer_prefix])
  have q2: "prefix (trace st) (trace (snd (syncWithPeer fuel e h ?st2)))" for h
    by (rule prefix_order.trans [OF p2 syncWithPeer_prefix])
  show ?thesis
    using p2 q1 q2
    by (simp add: doInitialBlockPoolSync_def Let_def blockpool_StoreBlock_eq
          split: prod.splits option.splits)
qed

lemma mempool_StoreTx_snd [simp]:
  "snd (mempool_StoreTx e st tx) = record_event (EvStoreTx tx) st"
  by (simp add: mempool_StoreTx_def)

lemma mempool_GetTransaction_snd [simp]:
  "snd (mempool_GetTransaction e st h) = record_event (EvGetTransaction h) st"
  by (simp add: mempool_GetTransaction_def)

lemma storeTransactions_flag:
  "initialSyncCompleted (storeTransactions e st vs) = initialSyncCompleted st"
  by (induction vs arbitrary: st) (simp_all add: mempool_StoreTx_def split: option.splits)

lemma storeTransactions_prefix: "prefix (trace st) (trace (storeTransactions e st vs))"
proof (induction vs arbitrary: st)
  case Nil
  show ?case by simp
next
  case (Cons v vs)
  let ?st1 = "record_event (EvStoreTx v) st"
  have p1: "prefix (trace st) (trace ?st1)" by (rule prefix_record_event_self)
  show ?case
  proof (cases "StoreTx e (trace st) v")
    case None
    then have eq: "storeTransactions e st (v # vs) = storeTransactions e ?st1 vs"
      by (simp add: mempool_StoreTx_def)
    show ?thesis unfolding eq by (rule prefix_order.trans [OF p1 Cons.IH])
  next
    case (Some err)
    then have eq: "storeTransactions e st (v # vs) =
        storeTransactions e (record_event (EvWarnf ''%s'' [ArgError err]) ?st1) vs"
      by (simp add: mempool_StoreTx_def)
    show ?thesis unfolding eq
      by (rule prefix_order.trans [OF prefix_record_event [OF p1] Cons.IH])
  qed
qed

lemma collectMissing_flag:
  "initialSyncCompleted (snd (collectMissing e st acc vs)) = initialSyncCompleted st"
  by (induction vs arbitrary: st acc) (simp_all add: mempool_GetTransaction_def)

lemma collectMissing_prefix: "prefix (trace st) (trace (snd (collectMissing e st acc vs)))"
proof (induction vs arbitrary: st acc)
  case Nil
  show ?case by simp
next
  case (Cons v vs)
  have p1: "prefix (trace st) (trace (record_event (EvGetTransaction v) st))"
    by (rule prefix_record_event_self)
  show ?case
    by (simp add: mempool_GetTransaction_def) (intro conjI impI prefix_order.trans [OF p1 Cons.IH])
qed

lemma retrieveTxs_flag:
  "initialSyncCompleted (snd (retrieveTxs fuel e txs st)) = initialSyncCompleted st"
  by (induction fuel arbitrary: txs st)
     (simp_all add: rpc_GetMempoolTxs_def storeTransactions_flag split: sum.splits option.splits)

lemma retrieveTxs_prefix: "prefix (trace st) (trace (snd (retrieveTxs fuel e txs st)))"
proof (induction fuel arbitrary: txs st)
  case 0
  show ?case by simp
next
  case (Suc fuel)
  have step: "prefix (trace st)
      (trace (snd (retrieveTxs fuel e txs1
         (storeTransactions e (record_event ev st) vs))))" for txs1 ev vs
    by (rule prefix_order.trans [OF prefix_record_event_self
          prefix_order.trans [OF storeTransactions_prefix Suc.IH] ])
  show ?case
    by (simp add: rpc_GetMempoolTxs_def step prefix_record_event_self
          split: sum.splits option.splits)
qed

lemma doInitialMempoolSync_flag:
  "initialSyncCompleted (snd (doInitialMempoolSync fuel e st)) = initialSyncCompleted st"
proof -
  have "initialSyncCompleted st2 = initialSyncCompleted st1"
    if "collectMissing e st1 acc vs = (txs, st2)" for st1 acc vs txs st2
    using collectMissing_flag [of e st1 acc vs] that by simp
  then show ?thesis
    by (simp add: doInitialMempoolSync_def rpc_Mempool_def retrieveTxs_flag
          split: sum.splits prod.splits)
qed

lemma doInitialMempoolSync_prefix:
  "prefix (trace st) (trace (snd (doInitialMempoolSync fuel e st)))"
proof -
  let ?st1 = "record_event (EvCall ''Mempool'' NilArg) st"
  have p1: "prefix (trace st) (trace ?st1)" by (rule prefix_record_event_self)
  have "prefix (trace st) (trace (snd (retrieveTxs fuel e txs st2)))"
    if "collectMissing e ?st1 acc vs = (txs, st2)" for acc vs txs st2
  proof -
    have "prefix (trace ?st1) (trace st2)"
      using collectMissing_prefix [of ?st1 e acc vs] that by simp
    from prefix_order.trans [OF p1 this] show ?thesis
      by (rule prefix_order.trans [OF _ retrieveTxs_prefix])
  qed
  with p1 show ?thesis
    by (simp add: doInitialMempoolSync_def rpc_Mempool_def split: sum.splits prod.splits)
qed

lemma log_error_flag [simp]: "initialSyncCompleted (log_error err st) = initialSyncCompleted st"
  by (simp add: log_error_def split: option.splits)

lemma Start_flag: "initialSyncCompleted (snd (Start fuel e st)) = initialSyncCompleted st"
proof -
  define st0 where "st0 = st\<lparr>wg := wg st + 1\<rparr>"
  have st0: "st\<lparr>wg := Suc (wg st)\<rparr> = st0" by (simp add: st0_def)
  obtain r st1 where r1: "doInitialBlockPoolSync fuel e st0 = (r, st1)"
    by (cases "doInitialBlockPoolSync fuel e st0")
  have f1: "initialSyncCompleted st1 = initialSyncCompleted st"
    using doInitialBlockPoolSync_flag [of fuel e st0] r1 by (simp add: st0_def)
  show ?thesis
  proof (cases r)
    case None
    with r1 f1 show ?thesis by (simp add: Start_def Let_def st0)
  next
    case (Some err)
    obtain r' st2 where r2: "doInitialMempoolSync fuel e (log_error err st1) = (r', st2)"
      by (cases "doInitialMempoolSync fuel e (log_error err st1)")
    have f2: "initialSyncCompleted st2 = initialSyncCompleted st"
      using doInitialMempoolSync_flag [of fuel e "log_error err st1"] r2 f1 by simp
    from Some r1 r2 f2 show ?thesis
      by (cases r') (simp_all add: Start_def Let_def st0)
  qed
qed

lemma Stop_flag: "initialSyncCompleted (snd (Stop st)) = initialSyncCompleted st"
  by (simp add: Stop_def Let_def)

lemma onNewTransaction_flag:
  "initialSyncCompleted (onNewTransaction e message st) = initialSyncCompleted st"
  by (simp add: onNewTransaction_def mempool_StoreTx_def split: payload.splits option.splits)

lemma reachable_flag: "reachable e st \<Longrightarrow> \<not> initialSyncCompleted st"
  by (induction rule: reachable.induct)
     (simp_all add: NewSyncManager_def Start_flag Stop_flag onNewTransaction_flag
        processReceivedBlock_flag doInitialBlockPoolSync_flag doInitialMempoolSync_flag)

lemma events_since_prefix:
  "prefix (trace st @ xs) (trace st') \<Longrightarrow> \<exists>evs. events_since st st' = xs @ evs"
  by (auto simp: prefix_def events_since_def)

lemma events_since_append: "trace st' = trace st @ evs \<Longrightarrow> events_since st st' = evs"
  by (simp add: events_since_def)

lemma doInitialBlockPoolSync_first_event:
  assumes "\<not> initialSyncCompleted st"
  shows "prefix (trace st @ [EvGetLatestBlockHeight]) (trace (snd (doInitialBlockPoolSync fuel e st)))"
proof -
  let ?st1 = "record_event EvGetLatestBlockHeight st"
  let ?st2 = "?st1\<lparr>blockpool := snd (StoreBlock e (blockpool st) (GenesisBlock e)),
                 trace := trace ?st1 @ [EvStoreBlock (GenesisBlock e)]\<rparr>"
  have p2: "prefix (trace ?st1) (trace ?st2)" by (simp add: prefix_def)
  have q1: "prefix (trace ?st1) (trace (snd (syncWithPeer fuel e h ?st1)))" for h
    by (rule syncWithPeer_prefix)
  have q2: "prefix (trace ?st1) (trace (snd (syncWithPeer fuel e h ?st2)))" for h
    by (rule prefix_order.trans [OF p2 syncWithPeer_prefix])
  have "prefix (trace ?st1) (trace (snd (doInitialBlockPoolSync fuel e st)))"
    using assms p2 q1 q2
    by (simp add: doInitialBlockPoolSync_def Let_def blockpool_StoreBlock_eq
          split: prod.splits option.splits)
  then show ?thesis by simp
qed


lemma Start_extends_block_sync:
  "prefix (trace (snd (doInitialBlockPoolSync fuel e (st\<lparr>wg := wg st + 1\<rparr>))))
     (trace (snd (Start fuel e st)))"
proof -
  define st0 where "st0 = st\<lparr>wg := wg st + 1\<rparr>"
  have st0: "st\<lparr>wg := Suc (wg st)\<rparr> = st0" by (simp add: st0_def)
  obtain r st1 where r1: "doInitialBlockPoolSync fuel e st0 = (r, st1)"
    by (cases "doInitialBlockPoolSync fuel e st0")
  show ?thesis
  proof (cases r)
    case None
    with r1 show ?thesis by (simp add: Start_def Let_def st0)
  next
    case (Some err)
    obtain r' st2 where r2: "doInitialMempoolSync fuel e (log_error err st1) = (r', st2)"
      by (cases "doInitialMempoolSync fuel e (log_error err st1)")
    have a: "prefix (trace st1) (trace (log_error err st1))"
      by (simp add: log_error_def prefix_record_event_self split: option.splits)
    have b: "prefix (trace (log_error err st1)) (trace st2)"
      using doInitialMempoolSync_prefix [of "log_error err st1" fuel e] r2 by simp
    have c: "prefix (trace st2) (trace (log_error x st2))" for x
      by (simp add: log_error_def prefix_record_event_self split: option.splits)
    have ab: "prefix (trace st1) (trace st2)" by (rule prefix_order.trans [OF a b])
    have "prefix (trace st1) (trace (log_error x st2))" for x
      by (rule prefix_order.trans [OF ab c])
    with Some r1 r2 ab show ?thesis
      by (cases r') (simp_all add: Start_def Let_def st0)
  qed
qed











lemma storeTransactions_blockpool: "blockpool (storeTransactions e st vs) = blockpool st"
  by (induction vs arbitrary: st) (simp_all add: mempool_StoreTx_def split: option.splits)

lemma collectMissing_blockpool: "blockpool (snd (collectMissing e st acc vs)) = blockpool st"
  by (induction vs arbitrary: st acc) (simp_all add: mempool_GetTransaction_def)

lemma retrieveTxs_blockpool: "blockpool (snd (retrieveTxs fuel e txs st)) = blockpool st"
  by (induction fuel arbitrary: txs st)
     (simp_all add: rpc_GetMempoolTxs_def storeTransactions_blockpool
        split: sum.splits option.splits)

lemma doInitialMempoolSync_blockpool:
  "blockpool (snd (doInitialMempoolSync fuel e st)) = blockpool st"
proof -
  have "blockpool st2 = blockpool st1"
    if "collectMissing e st1 acc vs = (txs, st2)" for st1 acc vs txs st2
    using collectMissing_blockpool [of e st1 acc vs] that by simp
  then show ?thesis
    by (simp add: doInitialMempoolSync_def rpc_Mempool_def retrieveTxs_blockpool
          split: sum.splits prod.splits)
qed

lemma log_error_blockpool [simp]: "blockpool (log_error err st) = blockpool st"
  by (simp add: log_error_def split: option.splits)

lemma Start_after_block_sync:
  "blockpool (snd (Start fuel e st)) =
     blockpool (snd (doInitialBlockPoolSync fuel e (st\<lparr>wg := wg st + 1\<rparr>))) \<and>
   (fst (doInitialBlockPoolSync fuel e (st\<lparr>wg := wg st + 1\<rparr>)) = None \<longrightarrow>
      Start fuel e st = (None, snd (doInitialBlockPoolSync fuel e (st\<lparr>wg := wg st + 1\<rparr>))))"
proof -
  define st0 where "st0 = st\<lparr>wg := wg st + 1\<rparr>"
  have st0: "st\<lparr>wg := Suc (wg st)\<rparr> = st0" by (simp add: st0_def)
  obtain r st1 where r1: "doInitialBlockPoolSync fuel e st0 = (r, st1)"
    by (cases "doInitialBlockPoolSync fuel e st0")
  have "blockpool (snd (Start fuel e st)) = blockpool st1 \<and>
      (r = None \<longrightarrow> Start fuel e st = (None, st1))"
  proof (cases r)
    case None
    with r1 show ?thesis by (simp add: Start_def Let_def st0)
  next
    case (Some err)
    obtain r' st2 where r2: "doInitialMempoolSync fuel e (log_error err st1) = (r', st2)"
      by (cases "doInitialMempoolSync fuel e (log_error err st1)")
    have "blockpool st2 = blockpool st1"
      using doInitialMempoolSync_blockpool [of fuel e "log_error err st1"] r2 by simp
    with Some r1 r2 show ?thesis
      by (cases r') (simp_all add: Start_def Let_def st0)
  qed
  with r1 show ?thesis by (simp add: st0)
qed


section \<open>The flag initialSyncCompleted\<close>

text \<open>
  C9. \<open>NewSyncManager\<close> sets \<open>initialSyncCompleted\<close> to false and no operation sets it:
  in every state a sync manager reaches the flag is false, so \<open>doInitialBlockPoolSync\<close>
  never leaves at its guard: it is its body after the guard, which starts by asking the
  pool for its latest height. Every call of \<open>Start\<close> in such a state runs that body in
  full: what \<open>Start\<close> adds to the trace begins with everything the block-pool sync
  adds, the pool after \<open>Start\<close> is the pool the block-pool sync leaves, and \<open>Start\<close> has
  not returned as long as the block-pool sync has not.
\<close>

theorem initialSyncCompleted_never_set:
  "reachable e st \<Longrightarrow>
     \<not> initialSyncCompleted st \<and>
     (\<exists>evs. events_since st (snd (doInitialBlockPoolSync fuel e st))
              = EvGetLatestBlockHeight # evs) \<and>
     (\<exists>evs. events_since st (snd (Start fuel e st)) = EvGetLatestBlockHeight # evs) \<and>
     doInitialBlockPoolSync fuel e st =
       (case GetLatestBlockHeight e (blockpool st) of
          (ourLastHeight, err) \<Rightarrow>
            if err = Some ErrLatestHeightNil then
              (case blockpool_StoreBlock e (record_event EvGetLatestBlockHeight st)
                      (GenesisBlock e) of
                 (Some err1, st1) \<Rightarrow> (Some (Some err1), st1)
               | (None, st1) \<Rightarrow> syncWithPeer fuel e ourLastHeight st1)
            else syncWithPeer fuel e ourLastHeight (record_event EvGetLatestBlockHeight st)) \<and>
     (let st0 = st\<lparr>wg := wg st + 1\<rparr>;
          sync = doInitialBlockPoolSync fuel e st0
      in sync =
           (case GetLatestBlockHeight e (blockpool st) of
              (ourLastHeight, err) \<Rightarrow>
                if err = Some ErrLatestHeightNil then
                  (case blockpool_StoreBlock e (record_event EvGetLatestBlockHeight st0)
                          (GenesisBlock e) of
                     (Some err1, st1) \<Rightarrow> (Some (Some err1), st1)
                   | (None, st1) \<Rightarrow> syncWithPeer fuel e ourLastHeight st1)
                else syncWithPeer fuel e ourLastHeight
                       (record_event EvGetLatestBlockHeight st0)) \<and>
         (\<exists>evs. events_since st (snd (Start fuel e st))
                  = events_since st (snd sync) @ evs) \<and>
         blockpool (snd (Start fuel e st)) = blockpool (snd sync) \<and>
         (fst sync = None \<longrightarrow> Start fuel e st = (None, snd sync)))"
proof -
  assume r: "reachable e st"
  then have f: "\<not> initialSyncCompleted st" by (rule reachable_flag)
  have a: "\<exists>evs. events_since st (snd (doInitialBlockPoolSync fuel e st))
              = EvGetLatestBlockHeight # evs"
    using events_since_prefix [OF doInitialBlockPoolSync_first_event [OF f] ] by simp
  define st0 where "st0 = st\<lparr>wg := wg st + 1\<rparr>"
  have f0: "\<not> initialSyncCompleted st0" using f by (simp add: st0_def)
  have t0: "trace st0 = trace st" and b0: "blockpool st0 = blockpool st"
    by (simp_all add: st0_def)
  from doInitialBlockPoolSync_first_event [OF f0]
  have "prefix (trace st @ [EvGetLatestBlockHeight])
          (trace (snd (doInitialBlockPoolSync fuel e st0)))" by (simp add: t0)
  then have "prefix (trace st @ [EvGetLatestBlockHeight]) (trace (snd (Start fuel e st)))"
    unfolding st0_def by (rule prefix_order.trans [OF _ Start_extends_block_sync])
  then have b: "\<exists>evs. events_since st (snd (Start fuel e st)) = EvGetLatestBlockHeight # evs"
    using events_since_prefix by fastforce
  have c: "doInitialBlockPoolSync fuel e st =
       (case GetLatestBlockHeight e (blockpool st) of
          (ourLastHeight, err) \<Rightarrow>
            if err = Some ErrLatestHeightNil then
              (case blockpool_StoreBlock e (record_event EvGetLatestBlockHeight st)
                      (GenesisBlock e) of
                 (Some err1, st1) \<Rightarrow> (Some (Some err1), st1)
               | (None, st1) \<Rightarrow> syncWithPeer fuel e ourLastHeight st1)
            else syncWithPeer fuel e ourLastHeight (record_event EvGetLatestBlockHeight st))"
    using f by (simp add: doInitialBlockPoolSync_def Let_def)
  have d: "doInitialBlockPoolSync fuel e st0 =
       (case GetLatestBlockHeight e (blockpool st) of
          (ourLastHeight, err) \<Rightarrow>
            if err = Some ErrLatestHeightNil then
              (case blockpool_StoreBlock e (record_event EvGetLatestBlockHeight st0)
                      (GenesisBlock e) of
                 (Some err1, st1) \<Rightarrow> (Some (Some err1), st1)
               | (None, st1) \<Rightarrow> syncWithPeer fuel e ourLastHeight st1)
            else syncWithPeer fuel e ourLastHeight (record_event EvGetLatestBlockHeight st0))"
    using f0 by (simp add: doInitialBlockPoolSync_def Let_def b0)
  have p0: "prefix (trace st) (trace (snd (doInitialBlockPoolSync fuel e st0)))"
    using doInitialBlockPoolSync_prefix [of st0 fuel e] by (simp add: t0)
  have p1: "prefix (trace (snd (doInitialBlockPoolSync fuel e st0)))
      (trace (snd (Start fuel e st)))"
    unfolding st0_def by (rule Start_extends_block_sync)
  have g: "\<exists>evs. events_since st (snd (Start fuel e st))
                  = events_since st (snd (doInitialBlockPoolSync fuel e st0)) @ evs"
    using p0 p1 by (auto simp: prefix_def events_since_def)
  have h: "blockpool (snd (Start fuel e st))
        = blockpool (snd (doInitialBlockPoolSync fuel e st0)) \<and>
      (fst (doInitialBlockPoolSync fuel e st0) = None \<longrightarrow>
        Start fuel e st = (None, snd (doInitialBlockPoolSync fuel e st0)))"
    unfolding st0_def by (rule Start_after_block_sync)
  from f a b c d g h show ?thesis
    unfolding Let_def st0_def [symmetric] by blast
qed



lemma test_block_sync_out_of_fuel:
  "fst (doInitialBlockPoolSync 0 test_env
          ((NewSyncManager Map.empty)\<lparr>wg := wg (NewSyncManager Map.empty) + 1\<rparr>)) = None"
  by (simp add: doInitialBlockPoolSync_def syncWithPeer_def rpc_LastBlockHeight_def
        Let_def test_env_fields NewSyncManager_def record_event_def)

theorem initialSyncCompleted_never_set_witness:
  "reachable test_env (NewSyncManager Map.empty) \<and>
   \<not> initialSyncCompleted (NewSyncManager Map.empty) \<and>
   (\<exists>evs. events_since (NewSyncManager Map.empty)
            (snd (Start 2 test_env (NewSyncManager Map.empty)))
          = EvGetLatestBlockHeight # evs) \<and>
   fst (doInitialBlockPoolSync 0 test_env
          ((NewSyncManager Map.empty)\<lparr>wg := wg (NewSyncManager Map.empty) + 1\<rparr>)) = None \<and>
   Start 0 test_env (NewSyncManager Map.empty) =
     (None,
      snd (doInitialBlockPoolSync 0 test_env
             ((NewSyncManager Map.empty)\<lparr>wg := wg (NewSyncManager Map.empty) + 1\<rparr>)))"
proof -
  have r: "reachable test_env (NewSyncManager Map.empty)" by (rule reachable_new)
  note n = test_block_sync_out_of_fuel
  from initialSyncCompleted_never_set [OF r, of 2] have a:
    "\<not> initialSyncCompleted (NewSyncManager Map.empty) \<and>
     (\<exists>evs. events_since (NewSyncManager Map.empty)
            (snd (Start 2 test_env (NewSyncManager Map.empty)))
          = EvGetLatestBlockHeight # evs)"
    by blast
  from initialSyncCompleted_never_set [OF r, of 0] n have b:
    "Start 0 test_env (NewSyncManager Map.empty) =
     (None,
      snd (doInitialBlockPoolSync 0 test_env
             ((NewSyncManager Map.empty)\<lparr>wg := wg (NewSyncManager Map.empty) + 1\<rparr>)))"
    unfolding Let_def by blast
  from r a n b show ?thesis by blast
qed

section \<open>onNewTransaction\<close>

text \<open>
  C6. \<open>onNewTransaction\<close> calls \<open>StoreTx\<close> of the mempool exactly when the payload is a
  transaction and \<open>ValidateHash\<close> holds for it, and then once, on that transaction. When
  the payload is not a transaction, or the hash is not valid, it logs a warning and calls
  nothing else. When \<open>StoreTx\<close> fails, the error goes into a warning; the handler
  returns no value, and changes nothing but the trace.
\<close>

theorem onNewTransaction_stores_iff_valid:
  "(let st' = onNewTransaction e message st; new = events_since st st' in
     ((\<exists>tx. Payload message = TransactionPayload tx \<and> ValidateHash e tx) \<longleftrightarrow>
        stored_txs new \<noteq> []) \<and>
     (\<forall>tx. Payload message = TransactionPayload tx \<and> ValidateHash e tx \<longrightarrow>
        stored_txs new = [tx] \<and>
        new = EvStoreTx tx #
          (case StoreTx e (trace st) tx of
             None \<Rightarrow> []
           | Some err \<Rightarrow>
               [EvWarnf ''failed to store incoming transaction in mempool: %s'' [ArgError err] ])) \<and>
     (\<forall>tx. Payload message = TransactionPayload tx \<and> \<not> ValidateHash e tx \<longrightarrow>
        new = [EvWarn ''failed to validate tx hash, rejecting it'']) \<and>
     ((\<forall>tx. Payload message \<noteq> TransactionPayload tx) \<longrightarrow>
        new = [EvWarn ''failed to convert payload to Transaction'']) \<and>
     st' = st\<lparr>trace := trace st @ new\<rparr>)"
  by (cases "Payload message")
     (auto simp: onNewTransaction_def events_since_def mempool_StoreTx_def record_event_def
        Let_def split: option.splits)

theorem onNewTransaction_stores_iff_valid_witness:
  "Payload test_message = TransactionPayload test_tx \<and> ValidateHash test_env test_tx \<and>
   stored_txs (events_since test_state (onNewTransaction test_env test_message test_state))
     = [test_tx] \<and>
   Payload test_message_invalid = TransactionPayload (test_tx\<lparr>TxData := [9]\<rparr>) \<and>
   \<not> ValidateHash test_env (test_tx\<lparr>TxData := [9]\<rparr>) \<and>
   events_since test_state (onNewTransaction test_env test_message_invalid test_state)
     = [EvWarn ''failed to validate tx hash, rejecting it''] \<and>
   (\<forall>tx. Payload test_message_other \<noteq> TransactionPayload tx) \<and>
   events_since test_state (onNewTransaction test_env test_message_other test_state)
     = [EvWarn ''failed to convert payload to Transaction'']"
proof -
  have a: "Payload test_message = TransactionPayload test_tx \<and> ValidateHash test_env test_tx"
    by (simp add: test_message_def test_env_fields test_tx_def)
  have b: "Payload test_message_invalid = TransactionPayload (test_tx\<lparr>TxData := [9]\<rparr>) \<and>
      \<not> ValidateHash test_env (test_tx\<lparr>TxData := [9]\<rparr>)"
    by (simp add: test_message_invalid_def test_env_fields test_tx_def)
  have c: "\<forall>tx. Payload test_message_other \<noteq> TransactionPayload tx"
    by (simp add: test_message_other_def)
  from onNewTransaction_stores_iff_valid [of test_env test_message test_state] a
  have a': "stored_txs (events_since test_state
      (onNewTransaction test_env test_message test_state)) = [test_tx]"
    unfolding Let_def by blast
  from onNewTransaction_stores_iff_valid [of test_env test_message_invalid test_state] b
  have b': "events_since test_state (onNewTransaction test_env test_message_invalid test_state)
     = [EvWarn ''failed to validate tx hash, rejecting it'']"
    unfolding Let_def by blast
  from onNewTransaction_stores_iff_valid [of test_env test_message_other test_state] c
  have c': "events_since test_state (onNewTransaction test_env test_message_other test_state)
     = [EvWarn ''failed to convert payload to Transaction'']"
    unfolding Let_def by blast
  from a a' b b' c c' show ?thesis by blast
qed

section \<open>Blocks of height 0\<close>
















section \<open>An error of GetLatestBlockHeight\<close>

lemma Put_GetLatestBlockHeight_update:
  "Put (e\<lparr>GetLatestBlockHeight := g\<rparr>) = Put e"
  by (rule ext)+ (simp add: Put_def)

lemma StoreBlock_GetLatestBlockHeight_update:
  "StoreBlock (e\<lparr>GetLatestBlockHeight := g\<rparr>) d block = StoreBlock e d block"
  by (simp add: StoreBlock_def Update_def Put_GetLatestBlockHeight_update Let_def
        cong: sum.case_cong option.case_cong prod.case_cong)

lemma checkTransactions_GetLatestBlockHeight_update:
  "checkTransactions (e\<lparr>GetLatestBlockHeight := g\<rparr>) block txs = checkTransactions e block txs"
  by (induction txs) (simp_all split: sum.splits)

lemma processReceivedBlock_GetLatestBlockHeight_update:
  "processReceivedBlock (e\<lparr>GetLatestBlockHeight := g\<rparr>) st block = processReceivedBlock e st block"
  by (simp add: processReceivedBlock_def blockpool_StoreBlock_def
        StoreBlock_GetLatestBlockHeight_update checkTransactions_GetLatestBlockHeight_update
        Let_def split: sum.splits option.splits prod.splits)

lemma processBlocks_GetLatestBlockHeight_update:
  "processBlocks (e\<lparr>GetLatestBlockHeight := g\<rparr>) st bs = processBlocks e st bs"
  by (induction bs arbitrary: st)
     (simp_all add: processReceivedBlock_GetLatestBlockHeight_update split: prod.splits option.splits)

lemma fetchBlocks_GetLatestBlockHeight_update:
  "fetchBlocks fuel (e\<lparr>GetLatestBlockHeight := g\<rparr>) hc t rcv st = fetchBlocks fuel e hc t rcv st"
  by (induction fuel arbitrary: hc t rcv st) (simp_all add: rpc_GetRangeOfBlocks_def Let_def split: sum.splits)

lemma syncWithPeer_GetLatestBlockHeight_update:
  "syncWithPeer fuel (e\<lparr>GetLatestBlockHeight := g\<rparr>) h st = syncWithPeer fuel e h st"
  by (simp add: syncWithPeer_def rpc_LastBlockHeight_def fetchBlocks_GetLatestBlockHeight_update
        processBlocks_GetLatestBlockHeight_update split: sum.splits option.splits prod.splits)

lemma syncWithPeer_first_event:
  "prefix (trace st @ [EvCall ''LastBlockHeight'' NilArg]) (trace (snd (syncWithPeer fuel e h st)))"
proof -
  let ?st1 = "record_event (EvCall ''LastBlockHeight'' NilArg) st"
  have p2: "prefix (trace ?st1) (trace (snd (fetchBlocks fuel e hc t rcv ?st1)))" for hc t rcv
    by (rule fetchBlocks_prefix)
  have p3: "prefix (trace ?st1) (trace (processBlocks e st2 bs))"
    if "fetchBlocks fuel e hc t rcv ?st1 = (r, st2)" for hc t rcv r st2 bs
  proof -
    have "prefix (trace ?st1) (trace st2)" using p2 [of hc t rcv] that by simp
    then show ?thesis by (rule prefix_order.trans [OF _ processBlocks_prefix])
  qed
  have "prefix (trace ?st1) (trace (snd (syncWithPeer fuel e h st)))"
    using p2 p3
    by (simp add: syncWithPeer_def rpc_LastBlockHeight_def split: sum.splits option.splits prod.splits)
       (metis snd_conv)
  then show ?thesis by simp
qed

text \<open>
  C8. When \<open>GetLatestBlockHeight\<close> returns an error that is not \<open>ErrLatestHeightNil\<close>,
  \<open>doInitialBlockPoolSync\<close> goes on to the \<open>LastBlockHeight\<close> call with the height that
  came with the error: the run is the one it would be had the call returned that height
  and no error.
\<close>

theorem GetLatestBlockHeight_error_ignored:
  "GetLatestBlockHeight e (blockpool st) = (h, Some err) \<Longrightarrow>
   err \<noteq> ErrLatestHeightNil \<Longrightarrow>
   \<not> initialSyncCompleted st \<Longrightarrow>
     doInitialBlockPoolSync fuel e st =
       syncWithPeer fuel e h (record_event EvGetLatestBlockHeight st) \<and>
     doInitialBlockPoolSync fuel e st =
       doInitialBlockPoolSync fuel (e\<lparr>GetLatestBlockHeight := \<lambda>d. (h, None)\<rparr>) st \<and>
     (\<exists>evs. events_since st (snd (doInitialBlockPoolSync fuel e st))
              = [EvGetLatestBlockHeight, EvCall ''LastBlockHeight'' NilArg] @ evs)"
proof -
  assume g: "GetLatestBlockHeight e (blockpool st) = (h, Some err)"
    and ne: "err \<noteq> ErrLatestHeightNil"
    and f: "\<not> initialSyncCompleted st"
  let ?st1 = "record_event EvGetLatestBlockHeight st"
  have a: "doInitialBlockPoolSync fuel e st = syncWithPeer fuel e h ?st1"
    using g ne f by (simp add: doInitialBlockPoolSync_def Let_def)
  have b: "doInitialBlockPoolSync fuel (e\<lparr>GetLatestBlockHeight := \<lambda>d. (h, None)\<rparr>) st
      = syncWithPeer fuel e h ?st1"
    using f by (simp add: doInitialBlockPoolSync_def Let_def syncWithPeer_GetLatestBlockHeight_update)
  have "prefix (trace st @ [EvGetLatestBlockHeight, EvCall ''LastBlockHeight'' NilArg])
          (trace (snd (syncWithPeer fuel e h ?st1)))"
    using syncWithPeer_first_event [of ?st1 fuel e h] by simp
  then have c: "\<exists>evs. events_since st (snd (doInitialBlockPoolSync fuel e st))
              = [EvGetLatestBlockHeight, EvCall ''LastBlockHeight'' NilArg] @ evs"
    unfolding a by (rule events_since_prefix)
  from a b c show ?thesis by simp
qed

theorem GetLatestBlockHeight_error_ignored_witness:
  "GetLatestBlockHeight test_env_storage_failure (blockpool test_state)
     = (7, Some (ErrExternal ''mdb_get: MDB_CORRUPTED'')) \<and>
   ErrExternal ''mdb_get: MDB_CORRUPTED'' \<noteq> ErrLatestHeightNil \<and>
   \<not> initialSyncCompleted test_state \<and>
   doInitialBlockPoolSync 2 test_env_storage_failure test_state =
     syncWithPeer 2 test_env_storage_failure 7 (record_event EvGetLatestBlockHeight test_state)"
proof -
  have a: "GetLatestBlockHeight test_env_storage_failure (blockpool test_state)
     = (7, Some (ErrExternal ''mdb_get: MDB_CORRUPTED''))"
    by (simp add: test_env_storage_failure_def)
  have b: "ErrExternal ''mdb_get: MDB_CORRUPTED'' \<noteq> ErrLatestHeightNil" by simp
  have c: "\<not> initialSyncCompleted test_state"
    by (simp add: test_state_def NewSyncManager_def)
  from GetLatestBlockHeight_error_ignored [OF a b c, of 2] a b c show ?thesis by blast
qed

section \<open>The loop over the received blocks\<close>





section \<open>The fetch loop of doInitialBlockPoolSync\<close>

subsection \<open>One step on 64-bit words\<close>

lemma step_added_le:
  fixes hc M :: uint64
  shows "(if hc < M then hc else M) \<le> hc" and "(if hc < M then hc else M) \<le> M"
  by (auto simp: word_le_nat_alt word_less_nat_alt)

lemma step_unat:
  fixes t hc a :: uint64
  assumes "unat t + unat hc < 2 ^ 64" and "a \<le> hc"
  shows "unat (t + a) = unat t + unat a"
    and "unat (hc - a) = unat hc - unat a"
    and "unat (t + a) + unat (hc - a) = unat t + unat hc"
proof -
  from assms(2) have le: "unat a \<le> unat hc" by (simp add: word_le_nat_alt)
  with assms(1) have "unat t + unat a < 2 ^ LENGTH(64)" by simp
  then show 1: "unat (t + a) = unat t + unat a" by (simp only: unat_add_lem)
  show 2: "unat (hc - a) = unat hc - unat a" using assms(2) by (rule unat_sub)
  from 1 2 le show "unat (t + a) + unat (hc - a) = unat t + unat hc" by simp
qed

lemma step_from:
  fixes t hc :: uint64
  assumes "unat t + unat hc < 2 ^ 64" and "0 < hc"
  shows "unat (t + 1) = unat t + 1"
proof -
  from assms(2) have "0 < unat hc" by (simp add: word_less_nat_alt)
  with assms(1) have "unat t + unat (1::uint64) < 2 ^ LENGTH(64)" by simp
  then have "unat (t + 1) = unat t + unat (1::uint64)" by (simp only: unat_add_lem)
  then show ?thesis by simp
qed

subsection \<open>Lists of ranges that continue one another\<close>

lemma ranges_append: "ranges (xs @ ys) = ranges xs @ ranges ys"
  by (induction xs rule: ranges.induct) simp_all

lemma contiguous_bounds:
  "contiguous t rs \<Longrightarrow> (f, t') \<in> set rs \<Longrightarrow> unat t < unat f \<and> unat f \<le> unat t'"
proof (induction rs arbitrary: t)
  case Nil
  then show ?case by simp
next
  case (Cons r rs)
  obtain f0 t0 where r: "r = (f0, t0)" by (cases r)
  from Cons.prems(1) r have c: "unat f0 = unat t + 1" "unat f0 \<le> unat t0" "contiguous t0 rs"
    by simp_all
  show ?case
  proof (cases "(f, t') = r")
    case True
    with r c show ?thesis by simp
  next
    case False
    with Cons.prems(2) have "(f, t') \<in> set rs" by simp
    from Cons.IH [OF c(3) this] c show ?thesis by simp
  qed
qed

lemma contiguous_last_to: "contiguous t rs \<Longrightarrow> unat t \<le> unat (last_to t rs)"
proof (induction rs arbitrary: t)
  case Nil
  show ?case by simp
next
  case (Cons r rs)
  obtain f0 t0 where r: "r = (f0, t0)" by (cases r)
  from Cons.prems r have c: "unat f0 = unat t + 1" "unat f0 \<le> unat t0" "contiguous t0 rs"
    by simp_all
  from Cons.IH [OF c(3)] c r show ?case by simp
qed

lemma contiguous_covers:
  "contiguous t rs \<Longrightarrow>
     (\<exists>(f, t') \<in> set rs. unat f \<le> unat x \<and> unat x \<le> unat t') \<longleftrightarrow>
     (unat t < unat x \<and> unat x \<le> unat (last_to t rs))"
proof (induction rs arbitrary: t)
  case Nil
  show ?case by simp
next
  case (Cons r rs)
  obtain f0 t0 where r: "r = (f0, t0)" by (cases r)
  from Cons.prems r have c: "unat f0 = unat t + 1" "unat f0 \<le> unat t0" "contiguous t0 rs"
    by simp_all
  from contiguous_last_to [OF c(3)] have l: "unat t0 \<le> unat (last_to t0 rs)" .
  have "(\<exists>(f, t') \<in> set (r # rs). unat f \<le> unat x \<and> unat x \<le> unat t') \<longleftrightarrow>
      (unat f0 \<le> unat x \<and> unat x \<le> unat t0) \<or>
      (\<exists>(f, t') \<in> set rs. unat f \<le> unat x \<and> unat x \<le> unat t')"
    by (simp add: r)
  also have "\<dots> \<longleftrightarrow> (unat f0 \<le> unat x \<and> unat x \<le> unat t0) \<or>
      (unat t0 < unat x \<and> unat x \<le> unat (last_to t0 rs))"
    by (simp only: Cons.IH [OF c(3)])
  also have "\<dots> \<longleftrightarrow> (unat t < unat x \<and> unat x \<le> unat (last_to t0 rs))"
    using c l by auto
  finally show ?case by (simp add: r)
qed

lemma contiguous_from:
  "contiguous t rs \<Longrightarrow> i < length rs \<Longrightarrow>
     fst (rs ! i) = (if i = 0 then t + 1 else snd (rs ! (i - 1)) + 1)"
proof (induction rs arbitrary: t i)
  case Nil
  then show ?case by simp
next
  case (Cons r rs)
  obtain f0 t0 where r: "r = (f0, t0)" by (cases r)
  from Cons.prems(1) r have c: "unat f0 = unat t + 1" "unat f0 \<le> unat t0" "contiguous t0 rs"
    by simp_all
  have f0: "f0 = t + 1"
  proof -
    have "unat t + unat (1::uint64) < 2 ^ LENGTH(64)"
      using c(1) unsigned_less [of f0, where 'a = nat] by simp
    then have "unat (t + 1) = unat t + unat (1::uint64)" by (simp only: unat_add_lem)
    with c(1) have "unat f0 = unat (t + 1)" by simp
    then show ?thesis by (simp only: word_unat_eq_iff)
  qed
  show ?case
  proof (cases i)
    case 0
    with r f0 show ?thesis by simp
  next
    case (Suc j)
    with Cons.prems(2) have j: "j < length rs" by simp
    from Cons.IH [OF c(3) j] Suc r show ?thesis
      by (cases j) simp_all
  qed
qed

lemma contiguous_apart:
  "contiguous t rs \<Longrightarrow> i < j \<Longrightarrow> j < length rs \<Longrightarrow>
     unat (fst (rs ! i)) \<le> unat (snd (rs ! i)) \<and> unat (snd (rs ! i)) < unat (fst (rs ! j))"
proof (induction rs arbitrary: t i j)
  case Nil
  then show ?case by simp
next
  case (Cons r rs)
  obtain f0 t0 where r: "r = (f0, t0)" by (cases r)
  from Cons.prems(1) r have c: "unat f0 = unat t + 1" "unat f0 \<le> unat t0" "contiguous t0 rs"
    by simp_all
  from Cons.prems(2) obtain j' where j: "j = Suc j'" by (cases j) simp_all
  with Cons.prems(3) have j': "j' < length rs" by simp
  show ?case
  proof (cases i)
    case 0
    have "(fst (rs ! j'), snd (rs ! j')) \<in> set rs" using j' by simp
    from contiguous_bounds [OF c(3) this] c 0 j r show ?thesis by simp
  next
    case (Suc i')
    with Cons.prems(2) j have "i' < j'" by simp
    from Cons.IH [OF c(3) this j'] Suc j show ?thesis by simp
  qed
qed

lemma contiguous_sorted: "contiguous t rs \<Longrightarrow> sorted_wrt (<) (map fst rs)"
proof -
  assume c: "contiguous t rs"
  have "fst (rs ! i) < fst (rs ! j)" if "i < j" "j < length rs" for i j
    using contiguous_apart [OF c that] by (simp add: word_less_nat_alt)
  then show ?thesis by (simp add: sorted_wrt_iff_nth_less)
qed


subsection \<open>What the loop requests\<close>

lemma fetchBlocks_Suc_unfold:
  assumes "0 < hc"
  shows "fetchBlocks (Suc fuel) e hc t rcv st =
    (case GetRangeOfBlocks e (trace st) (t + 1)
            (t + (if hc < MaxBlockCountForRetrieving e then hc else MaxBlockCountForRetrieving e)) of
       Inl err \<Rightarrow>
         (Some (Inl err),
          record_event (EvCall ''GetRangeOfBlocks'' (GetRangeOfBlocksArg (t + 1)
            (t + (if hc < MaxBlockCountForRetrieving e then hc else MaxBlockCountForRetrieving e)))) st)
     | Inr reply \<Rightarrow>
         fetchBlocks fuel e
           (hc - (if hc < MaxBlockCountForRetrieving e then hc else MaxBlockCountForRetrieving e))
           (t + (if hc < MaxBlockCountForRetrieving e then hc else MaxBlockCountForRetrieving e))
           (rcv @ Blocks reply)
           (if length (FailedBlockHeights reply) \<noteq> 0 then
              record_event
                (EvWarnf ''remote node is unable to retrieve block heights: %s''
                   [ArgUint64s (FailedBlockHeights reply)])
                (record_event (EvCall ''GetRangeOfBlocks'' (GetRangeOfBlocksArg (t + 1)
                   (t + (if hc < MaxBlockCountForRetrieving e then hc
                         else MaxBlockCountForRetrieving e)))) st)
            else
              record_event (EvCall ''GetRangeOfBlocks'' (GetRangeOfBlocksArg (t + 1)
                (t + (if hc < MaxBlockCountForRetrieving e then hc
                      else MaxBlockCountForRetrieving e)))) st))"
  using assms by (simp add: Let_def rpc_GetRangeOfBlocks_def split: sum.splits)

lemma fetchBlocks_ranges:
  assumes "unat t + unat hc < 2 ^ 64"
  shows "\<exists>evs. trace (snd (fetchBlocks fuel e hc t rcv st)) = trace st @ evs \<and>
     (\<forall>(f, t') \<in> set (ranges evs).
        t' - f + 1 \<le> MaxBlockCountForRetrieving e \<and>
        unat t' + 1 \<le> unat f + unat (MaxBlockCountForRetrieving e)) \<and>
     (0 < MaxBlockCountForRetrieving e \<longrightarrow>
        contiguous t (ranges evs) \<and>
        unat (last_to t (ranges evs)) \<le> unat t + unat hc \<and>
        ((\<exists>x. fst (fetchBlocks fuel e hc t rcv st) = Some (Inr x)) \<longrightarrow>
           unat (last_to t (ranges evs)) = unat t + unat hc))"
  using assms
proof (induction fuel arbitrary: hc t rcv st)
  case 0
  show ?case by (intro exI [of _ "[]"]) (simp add: word_less_nat_alt)
next
  case (Suc fuel)
  let ?M = "MaxBlockCountForRetrieving e"
  show ?case
  proof (cases "0 < hc")
    case False
    then show ?thesis by (intro exI [of _ "[]"]) (simp add: word_less_nat_alt)
  next
    case True
    define a where "a = (if hc < ?M then hc else ?M)"
    define c where "c = EvCall ''GetRangeOfBlocks'' (GetRangeOfBlocksArg (t + 1) (t + a))"
    have a_le: "a \<le> hc" "a \<le> ?M" unfolding a_def by (rule step_added_le)+
    note u = step_unat [OF Suc.prems a_le(1)]
    have f: "unat (t + 1) = unat t + 1" by (rule step_from [OF Suc.prems True])
    have a_pos: "0 < ?M \<longrightarrow> Suc 0 \<le> unat a"
      using True by (auto simp: a_def word_less_nat_alt)
    have wb: "t + a - (t + 1) + 1 \<le> ?M" using a_le(2) by simp
    have nb: "unat (t + a) + 1 \<le> unat (t + 1) + unat ?M"
      using a_le(2) by (simp add: u(1) f word_le_nat_alt)
    have le: "unat a \<le> unat hc" using a_le(1) by (simp add: word_le_nat_alt)
    show ?thesis
    proof (cases "GetRangeOfBlocks e (trace st) (t + 1) (t + a)")
      case (Inl err)
      then have eq: "fetchBlocks (Suc fuel) e hc t rcv st = (Some (Inl err), record_event c st)"
        unfolding fetchBlocks_Suc_unfold [OF True] by (simp add: a_def c_def)
      show ?thesis unfolding eq
        using wb nb le a_pos
        by (intro exI [of _ "[c]"]) (simp add: c_def u(1) f)
    next
      case (Inr reply)
      define st2 where "st2 =
        (if length (FailedBlockHeights reply) \<noteq> 0 then
           record_event
             (EvWarnf ''remote node is unable to retrieve block heights: %s''
                [ArgUint64s (FailedBlockHeights reply)]) (record_event c st)
         else record_event c st)"
      from Inr have eq: "fetchBlocks (Suc fuel) e hc t rcv st =
          fetchBlocks fuel e (hc - a) (t + a) (rcv @ Blocks reply) st2"
        unfolding fetchBlocks_Suc_unfold [OF True] by (simp add: a_def c_def st2_def)
      obtain pre where pre: "trace st2 = trace st @ c # pre" "ranges pre = []"
        by (cases "length (FailedBlockHeights reply) \<noteq> 0") (auto simp: st2_def)
      have "unat (t + a) + unat (hc - a) < 2 ^ 64" using u(3) Suc.prems by simp
      from Suc.IH [OF this, of "rcv @ Blocks reply" st2] obtain evs where
        t: "trace (snd (fetchBlocks fuel e (hc - a) (t + a) (rcv @ Blocks reply) st2))
              = trace st2 @ evs"
        and b: "\<forall>(f, t') \<in> set (ranges evs).
          t' - f + 1 \<le> ?M \<and> unat t' + 1 \<le> unat f + unat ?M"
        and k: "0 < ?M \<longrightarrow>
          contiguous (t + a) (ranges evs) \<and>
          unat (last_to (t + a) (ranges evs)) \<le> unat (t + a) + unat (hc - a) \<and>
          ((\<exists>x. fst (fetchBlocks fuel e (hc - a) (t + a) (rcv @ Blocks reply) st2)
                  = Some (Inr x)) \<longrightarrow>
             unat (last_to (t + a) (ranges evs)) = unat (t + a) + unat (hc - a))"
        by blast
      have r: "ranges (c # pre @ evs) = (t + 1, t + a) # ranges evs"
        by (simp add: c_def ranges_append pre(2))
      show ?thesis unfolding eq
      proof (intro exI [of _ "c # pre @ evs"] conjI)
        show "trace (snd (fetchBlocks fuel e (hc - a) (t + a) (rcv @ Blocks reply) st2))
            = trace st @ c # pre @ evs"
          by (simp add: t pre(1))
        show "\<forall>(f, t') \<in> set (ranges (c # pre @ evs)).
            t' - f + 1 \<le> ?M \<and> unat t' + 1 \<le> unat f + unat ?M"
          unfolding r using b wb nb by simp
        show "0 < ?M \<longrightarrow>
          contiguous t (ranges (c # pre @ evs)) \<and>
          unat (last_to t (ranges (c # pre @ evs))) \<le> unat t + unat hc \<and>
          ((\<exists>x. fst (fetchBlocks fuel e (hc - a) (t + a) (rcv @ Blocks reply) st2)
                  = Some (Inr x)) \<longrightarrow>
             unat (last_to t (ranges (c # pre @ evs))) = unat t + unat hc)"
        proof
          assume M: "0 < ?M"
          with k a_pos have k1: "contiguous (t + a) (ranges evs)"
            and k2: "unat (last_to (t + a) (ranges evs)) \<le> unat (t + a) + unat (hc - a)"
            and k3: "(\<exists>x. fst (fetchBlocks fuel e (hc - a) (t + a) (rcv @ Blocks reply) st2)
                  = Some (Inr x)) \<longrightarrow>
              unat (last_to (t + a) (ranges evs)) = unat (t + a) + unat (hc - a)"
            and a1: "Suc 0 \<le> unat a"
            by simp_all
          have c1: "contiguous t ((t + 1, t + a) # ranges evs)"
            using k1 a1 by (simp add: f u(1))
          show "contiguous t (ranges (c # pre @ evs)) \<and>
            unat (last_to t (ranges (c # pre @ evs))) \<le> unat t + unat hc \<and>
            ((\<exists>x. fst (fetchBlocks fuel e (hc - a) (t + a) (rcv @ Blocks reply) st2)
                  = Some (Inr x)) \<longrightarrow>
             unat (last_to t (ranges (c # pre @ evs))) = unat t + unat hc)"
            unfolding r using c1 k2 k3 by (simp only: last_to.simps u(3))
        qed
      qed
    qed
  qed
qed

lemma ceil_div_zero:
  fixes x m :: nat
  assumes "0 < m" and "(x + m - 1) div m \<le> 0"
  shows "x = 0"
proof (rule ccontr)
  assume "x \<noteq> 0"
  then have "m \<le> x + m - 1" by arith
  with assms(1) have "0 < (x + m - 1) div m" by (simp only: div_greater_zero_iff)
  with assms(2) show False by arith
qed

lemma ceil_div_step:
  fixes x m :: nat
  assumes "0 < m" and "m \<le> x" and "(x + m - 1) div m \<le> Suc n"
  shows "((x - m) + m - 1) div m \<le> n"
proof -
  have e: "x + m - 1 = (x - 1) + m" using assms(1,2) by arith
  have ne: "m \<noteq> 0" using assms(1) by arith
  have "(x + m - 1) div m = ((x - 1) + m) div m" by (simp only: e)
  also have "\<dots> = (x - 1) div m + 1" using ne by (rule div_add_self2)
  finally have "(x - 1) div m \<le> n" using assms(3) by arith
  moreover have "(x - m) + m - 1 = x - 1" using assms(2) by arith
  ultimately show ?thesis by (simp only:)
qed


lemma fetchBlocks_enough_fuel:
  assumes "0 < MaxBlockCountForRetrieving e"
    and "(unat hc + unat (MaxBlockCountForRetrieving e) - 1)
           div unat (MaxBlockCountForRetrieving e) \<le> fuel"
  shows "fst (fetchBlocks fuel e hc t rcv st) \<noteq> None"
  using assms(2)
proof (induction fuel arbitrary: hc t rcv st)
  case 0
  have m: "0 < unat (MaxBlockCountForRetrieving e)"
    using assms(1) by (simp only: word_less_nat_alt unsigned_0)
  from ceil_div_zero [OF m "0.prems"] have "unat hc = 0" .
  then have "\<not> 0 < hc" by (simp add: word_less_nat_alt)
  then show ?case by simp
next
  case (Suc fuel)
  let ?M = "MaxBlockCountForRetrieving e"
  have m: "0 < unat ?M" using assms(1) by (simp only: word_less_nat_alt unsigned_0)
  show ?case
  proof (cases "0 < hc")
    case False
    then show ?thesis by simp
  next
    case True
    define a where "a = (if hc < ?M then hc else ?M)"
    have a_le: "a \<le> hc" unfolding a_def by (rule step_added_le)
    have sub: "unat (hc - a) = unat hc - unat a" using a_le by (rule unat_sub)
    have "(unat (hc - a) + unat ?M - 1) div unat ?M \<le> fuel"
    proof (cases "hc < ?M")
      case True
      then have "a = hc" by (simp add: a_def)
      then have z: "unat (hc - a) = 0" by simp
      have "(unat ?M - 1) div unat ?M = 0" using m by (simp only: div_less diff_less zero_less_one)
      then show ?thesis unfolding z by simp
    next
      case False
      then have a: "a = ?M" by (simp add: a_def)
      from False have ge: "unat ?M \<le> unat hc" by (simp add: word_less_nat_alt)
      have "(unat hc - unat ?M + unat ?M - 1) div unat ?M \<le> fuel"
        by (rule ceil_div_step [OF m ge Suc.prems])
      moreover have "unat (hc - a) = unat hc - unat ?M" using sub a by (simp only:)
      ultimately show ?thesis by (simp only:)
    qed
    from Suc.IH [OF this] show ?thesis
      unfolding fetchBlocks_Suc_unfold [OF True] a_def [symmetric]
      by (simp split: sum.splits)
  qed
qed

lemma fetchBlocks_no_rpc_error:
  assumes "\<forall>hist f t. \<exists>reply. GetRangeOfBlocks e hist f t = Inr reply"
  shows "fst (fetchBlocks fuel e hc t rcv st) \<noteq> Some (Inl err)"
proof (induction fuel arbitrary: hc t rcv st)
  case 0
  show ?case by simp
next
  case (Suc fuel)
  show ?case
  proof (cases "0 < hc")
    case False
    then show ?thesis by simp
  next
    case True
    define a where "a = (if hc < MaxBlockCountForRetrieving e then hc
                         else MaxBlockCountForRetrieving e)"
    from assms obtain reply where "GetRangeOfBlocks e (trace st) (t + 1) (t + a) = Inr reply"
      by blast
    then show ?thesis
      unfolding fetchBlocks_Suc_unfold [OF True] a_def [symmetric]
      by (simp add: Suc.IH)
  qed
qed


lemma batches_append: "batches (xs @ ys) = batches xs @ batches ys"
  by (induction xs rule: batches.induct) simp_all

lemma processReceivedBlock_no_requests:
  "\<exists>evs. trace (snd (processReceivedBlock e st block)) = trace st @ evs \<and> ranges evs = []"
  by (auto simp: processReceivedBlock_def Let_def blockpool_StoreBlock_eq
      split: sum.splits option.splits)

lemma processBlocks_no_requests:
  "\<exists>evs. trace (processBlocks e st bs) = trace st @ evs \<and> ranges evs = []"
proof (induction bs arbitrary: st)
  case Nil
  show ?case by simp
next
  case (Cons b bs)
  obtain err st1 where r: "processReceivedBlock e st b = (err, st1)"
    by (cases "processReceivedBlock e st b")
  from processReceivedBlock_no_requests [of e st b] r obtain evs1 where
    t1: "trace st1 = trace st @ evs1" and l1: "ranges evs1 = []"
    by auto
  show ?case
  proof (cases err)
    case None
    with r have eq: "processBlocks e st (b # bs) = processBlocks e st1 bs" by simp
    from Cons.IH [of st1] obtain evs2 where
      "trace (processBlocks e st1 bs) = trace st1 @ evs2" "ranges evs2 = []" by blast
    with t1 l1 show ?thesis unfolding eq
      by (intro exI [of _ "evs1 @ evs2"]) (simp add: ranges_append)
  next
    case (Some x)
    let ?w = "EvWarnf ''unable to process block %d: %s''
                  [ArgUint64 (Height (Header b)), ArgError x]"
    from Some r have eq: "processBlocks e st (b # bs) = processBlocks e (record_event ?w st1) bs"
      by simp
    from Cons.IH [of "record_event ?w st1"] obtain evs2 where
      "trace (processBlocks e (record_event ?w st1) bs) = trace (record_event ?w st1) @ evs2"
      "ranges evs2 = []" by blast
    with t1 l1 show ?thesis unfolding eq
      by (intro exI [of _ "evs1 @ ?w # evs2"]) (simp add: ranges_append)
  qed
qed

lemma syncWithPeer_ranges_bound:
  "\<exists>evs. trace (snd (syncWithPeer fuel e h st)) = trace st @ evs \<and>
     (\<forall>(f, t) \<in> set (ranges evs).
        t - f + 1 \<le> MaxBlockCountForRetrieving e \<and>
        unat t + 1 \<le> unat f + unat (MaxBlockCountForRetrieving e))"
proof -
  let ?c = "EvCall ''LastBlockHeight'' NilArg"
  let ?st1 = "record_event ?c st"
  let ?B = "\<lambda>evs. \<forall>(f, t) \<in> set (ranges evs).
        t - f + 1 \<le> MaxBlockCountForRetrieving e \<and>
        unat t + 1 \<le> unat f + unat (MaxBlockCountForRetrieving e)"
  have a: "\<exists>evs. trace ?st1 = trace st @ evs \<and> ?B evs"
    by (intro exI [of _ "[?c]"]) simp
  have b: "\<exists>evs. trace st2 = trace st @ evs \<and> ?B evs"
     and c: "\<exists>evs. trace (processBlocks e st2 bs) = trace st @ evs \<and> ?B evs"
    if "h < rh" "fetchBlocks fuel e (rh - h) h [] ?st1 = (r, st2)" for rh r st2 bs
  proof -
    from that(1) have le: "h \<le> rh" by simp
    have "unat (rh - h) = unat rh - unat h" using le by (rule unat_sub)
    moreover have "unat h < unat rh" using that(1) by (simp add: word_less_nat_alt)
    moreover have "unat rh < 2 ^ LENGTH(64)" by (rule unsigned_less)
    ultimately have inv: "unat h + unat (rh - h) < 2 ^ 64" by simp
    from fetchBlocks_ranges [OF inv, of fuel e "[]" ?st1] that(2) obtain evs where
      t: "trace st2 = trace ?st1 @ evs" and bd: "?B evs" by auto
    show "\<exists>evs. trace st2 = trace st @ evs \<and> ?B evs"
      using t bd by (intro exI [of _ "?c # evs"]) simp
    from processBlocks_no_requests [of e st2 bs] obtain evs2 where
      "trace (processBlocks e st2 bs) = trace st2 @ evs2" "ranges evs2 = []" by blast
    with t bd show "\<exists>evs. trace (processBlocks e st2 bs) = trace st @ evs \<and> ?B evs"
      by (intro exI [of _ "?c # evs @ evs2"]) (simp add: ranges_append)
  qed
  show ?thesis
    using a b c
    by (simp add: syncWithPeer_def rpc_LastBlockHeight_def
        split: sum.splits option.splits prod.splits)
qed

lemma doInitialBlockPoolSync_cases:
  obtains (completed) "doInitialBlockPoolSync fuel e st = (Some None, st)"
  | (sync) h where "doInitialBlockPoolSync fuel e st =
        syncWithPeer fuel e h (record_event EvGetLatestBlockHeight st)"
  | (genesis) h where "doInitialBlockPoolSync fuel e st =
        syncWithPeer fuel e h
          ((record_event EvGetLatestBlockHeight st)
             \<lparr>blockpool := snd (StoreBlock e (blockpool st) (GenesisBlock e)),
              trace := trace st @ [EvGetLatestBlockHeight, EvStoreBlock (GenesisBlock e)]\<rparr>)"
  | (genesis_failed) x where "doInitialBlockPoolSync fuel e st =
        (Some (Some x),
         (record_event EvGetLatestBlockHeight st)
             \<lparr>blockpool := snd (StoreBlock e (blockpool st) (GenesisBlock e)),
              trace := trace st @ [EvGetLatestBlockHeight, EvStoreBlock (GenesisBlock e)]\<rparr>)"
proof (cases "initialSyncCompleted st")
  case True
  then have "doInitialBlockPoolSync fuel e st = (Some None, st)"
    by (simp add: doInitialBlockPoolSync_def)
  then show ?thesis by (rule completed)
next
  case nf: False
  obtain h err where g: "GetLatestBlockHeight e (blockpool st) = (h, err)"
    by (cases "GetLatestBlockHeight e (blockpool st)")
  show ?thesis
  proof (cases "err = Some ErrLatestHeightNil")
    case False
    with g nf have "doInitialBlockPoolSync fuel e st =
        syncWithPeer fuel e h (record_event EvGetLatestBlockHeight st)"
      by (simp add: doInitialBlockPoolSync_def Let_def)
    then show ?thesis by (rule sync)
  next
    case True
    show ?thesis
    proof (cases "fst (StoreBlock e (blockpool st) (GenesisBlock e))")
      case None
      with True g nf have "doInitialBlockPoolSync fuel e st =
        syncWithPeer fuel e h
          ((record_event EvGetLatestBlockHeight st)
             \<lparr>blockpool := snd (StoreBlock e (blockpool st) (GenesisBlock e)),
              trace := trace st @ [EvGetLatestBlockHeight, EvStoreBlock (GenesisBlock e)]\<rparr>)"
        by (simp add: doInitialBlockPoolSync_def Let_def blockpool_StoreBlock_eq)
      then show ?thesis by (rule genesis)
    next
      case (Some x)
      with True g nf have "doInitialBlockPoolSync fuel e st =
        (Some (Some x),
         (record_event EvGetLatestBlockHeight st)
             \<lparr>blockpool := snd (StoreBlock e (blockpool st) (GenesisBlock e)),
              trace := trace st @ [EvGetLatestBlockHeight, EvStoreBlock (GenesisBlock e)]\<rparr>)"
        by (simp add: doInitialBlockPoolSync_def Let_def blockpool_StoreBlock_eq)
      then show ?thesis by (rule genesis_failed)
    qed
  qed
qed

lemma doInitialBlockPoolSync_ranges_bound:
  "\<forall>(f, t) \<in> set (ranges (events_since st (snd (doInitialBlockPoolSync fuel e st)))).
        t - f + 1 \<le> MaxBlockCountForRetrieving e \<and>
        unat t + 1 \<le> unat f + unat (MaxBlockCountForRetrieving e)"
proof -
  let ?B = "\<lambda>evs. \<forall>(f, t) \<in> set (ranges evs).
        t - f + 1 \<le> MaxBlockCountForRetrieving e \<and>
        unat t + 1 \<le> unat f + unat (MaxBlockCountForRetrieving e)"
  let ?st1 = "record_event EvGetLatestBlockHeight st"
  let ?st2 = "?st1\<lparr>blockpool := snd (StoreBlock e (blockpool st) (GenesisBlock e)),
                 trace := trace st @ [EvGetLatestBlockHeight, EvStoreBlock (GenesisBlock e)]\<rparr>"
  have s: "?B (events_since st (snd (syncWithPeer fuel e h st1)))"
    if "trace st1 = trace st @ pre" "ranges pre = []" for h st1 pre
  proof -
    from syncWithPeer_ranges_bound [of fuel e h st1] obtain evs where
      "trace (snd (syncWithPeer fuel e h st1)) = trace st1 @ evs" "?B evs" by blast
    with that show ?thesis by (simp add: events_since_def ranges_append)
  qed
  show ?thesis
  proof (cases rule: doInitialBlockPoolSync_cases [of fuel e st])
    case completed
    then show ?thesis by (simp add: events_since_def)
  next
    case (sync h)
    show ?thesis unfolding sync
      by (rule s [where pre = "[EvGetLatestBlockHeight]"]) simp_all
  next
    case (genesis h)
    show ?thesis unfolding genesis
      by (rule s [where pre = "[EvGetLatestBlockHeight, EvStoreBlock (GenesisBlock e)]"])
         simp_all
  next
    case (genesis_failed x)
    show ?thesis unfolding genesis_failed by (simp add: events_since_def)
  qed
qed

text \<open>The ranges \<open>syncWithPeer\<close> requests are those of the loop it runs.\<close>

lemma syncWithPeer_runs_fetchBlocks:
  assumes "LastBlockHeight e (trace st) = Inr reply" and "ReplyError reply = None"
    and "ourLastHeight < ReplyHeight reply"
  shows "ranges (events_since st (snd (syncWithPeer fuel e ourLastHeight st))) =
     ranges (events_since (record_event (EvCall ''LastBlockHeight'' NilArg) st)
       (snd (fetchBlocks fuel e (ReplyHeight reply - ourLastHeight) ourLastHeight []
          (record_event (EvCall ''LastBlockHeight'' NilArg) st))))"
proof -
  let ?c = "EvCall ''LastBlockHeight'' NilArg"
  let ?st1 = "record_event ?c st"
  obtain r st2 where f:
    "fetchBlocks fuel e (ReplyHeight reply - ourLastHeight) ourLastHeight [] ?st1 = (r, st2)"
    by (cases "fetchBlocks fuel e (ReplyHeight reply - ourLastHeight) ourLastHeight [] ?st1")
  from fetchBlocks_prefix [of ?st1 fuel e "ReplyHeight reply - ourLastHeight" ourLastHeight "[]"] f
  obtain evs where t: "trace st2 = trace ?st1 @ evs" by (auto simp: prefix_def)
  have a: "ranges (events_since st st2) = ranges (events_since ?st1 st2)"
    by (simp add: events_since_def t)
  have b: "ranges (events_since st (processBlocks e st2 bs)) = ranges (events_since ?st1 st2)"
    for bs
  proof -
    from processBlocks_no_requests [of e st2 bs] obtain evs2 where
      "trace (processBlocks e st2 bs) = trace st2 @ evs2" "ranges evs2 = []" by blast
    then show ?thesis by (simp add: events_since_def t ranges_append)
  qed
  from assms f a b show ?thesis
    by (simp add: syncWithPeer_def rpc_LastBlockHeight_def split: sum.splits option.splits)
qed

section \<open>The ranges requested by the initial block-pool sync\<close>

text \<open>
  C3, as amended. \<open>doInitialBlockPoolSync\<close> runs the loop with the counter
  \<open>reply.Height - ourLastHeight\<close> and the cursor \<open>ourLastHeight\<close> when
  \<open>reply.Height > ourLastHeight\<close>. With a positive \<open>MaxBlockCountForRetrieving\<close>, the
  ranges it requests, however far it gets, have strictly increasing starts; the first
  starts at \<open>ourLastHeight + 1\<close> and each other one right after the end of the one
  before; none is empty and no two overlap; together they are the heights from
  \<open>ourLastHeight + 1\<close> to the end of the last range, which is at most \<open>reply.Height\<close>.
  When the loop ends without an error, the end of the last range is \<open>reply.Height\<close>.
  It does end so when no call of \<open>GetRangeOfBlocks\<close> returns a transport error: then
  as many iterations are enough as \<open>reply.Height - ourLastHeight\<close> divided by
  \<open>MaxBlockCountForRetrieving\<close>, rounded up.
\<close>

theorem fetchBlocks_requests_ascending_without_gaps:
  assumes "0 < MaxBlockCountForRetrieving e" and "ourLastHeight < replyHeight"
    and "fetchBlocks fuel e (replyHeight - ourLastHeight) ourLastHeight [] st = (r, st')"
  shows "(let rs = ranges (events_since st st') in
     sorted_wrt (<) (map fst rs) \<and>
     (\<forall>i < length rs.
        fst (rs ! i) = (if i = 0 then ourLastHeight + 1 else snd (rs ! (i - 1)) + 1) \<and>
        fst (rs ! i) \<le> snd (rs ! i)) \<and>
     (\<forall>i j. i < j \<and> j < length rs \<longrightarrow> snd (rs ! i) < fst (rs ! j)) \<and>
     (\<Union>(f, t) \<in> set rs. {f..t}) = {ourLastHeight + 1..last_to ourLastHeight rs} \<and>
     last_to ourLastHeight rs \<le> replyHeight \<and>
     ((\<exists>blocks. r = Some (Inr blocks)) \<longrightarrow> last_to ourLastHeight rs = replyHeight) \<and>
     ((unat (replyHeight - ourLastHeight) + unat (MaxBlockCountForRetrieving e) - 1)
         div unat (MaxBlockCountForRetrieving e) \<le> fuel \<longrightarrow> r \<noteq> None) \<and>
     ((\<forall>hist f t. \<exists>reply. GetRangeOfBlocks e hist f t = Inr reply) \<longrightarrow>
        (\<forall>err. r \<noteq> Some (Inl err))))"
proof -
  let ?h = ourLastHeight and ?hc = "replyHeight - ourLastHeight"
  from assms(2) have le: "?h \<le> replyHeight" by simp
  have hc: "unat ?hc = unat replyHeight - unat ?h" using le by (rule unat_sub)
  have lt: "unat ?h < unat replyHeight" using assms(2) by (simp add: word_less_nat_alt)
  have sum: "unat ?h + unat ?hc = unat replyHeight" using hc lt by simp
  have "unat replyHeight < 2 ^ LENGTH(64)" by (rule unsigned_less)
  then have inv: "unat ?h + unat ?hc < 2 ^ 64" using sum by simp
  have pos: "0 < ?hc" using hc lt by (simp add: word_less_nat_alt)
  have h1: "unat (?h + 1) = unat ?h + 1" by (rule step_from [OF inv pos])
  from fetchBlocks_ranges [OF inv, of fuel e "[]" st] assms(1,3) obtain evs where
    t: "trace st' = trace st @ evs"
    and c: "contiguous ?h (ranges evs)"
    and l: "unat (last_to ?h (ranges evs)) \<le> unat ?h + unat ?hc"
    and d: "(\<exists>x. r = Some (Inr x)) \<longrightarrow> unat (last_to ?h (ranges evs)) = unat ?h + unat ?hc"
    by auto
  define rs where "rs = ranges evs"
  have rs: "ranges (events_since st st') = rs" by (simp add: rs_def events_since_def t)
  note c = c [folded rs_def] and l = l [folded rs_def] and d = d [folded rs_def]
  have p1: "sorted_wrt (<) (map fst rs)" using c by (rule contiguous_sorted)
  have p2: "\<forall>i < length rs.
        fst (rs ! i) = (if i = 0 then ?h + 1 else snd (rs ! (i - 1)) + 1) \<and>
        fst (rs ! i) \<le> snd (rs ! i)"
  proof (intro allI impI conjI)
    fix i assume i: "i < length rs"
    show "fst (rs ! i) = (if i = 0 then ?h + 1 else snd (rs ! (i - 1)) + 1)"
      by (rule contiguous_from [OF c i])
    have "(fst (rs ! i), snd (rs ! i)) \<in> set rs" using i by simp
    from contiguous_bounds [OF c this] show "fst (rs ! i) \<le> snd (rs ! i)"
      by (simp add: word_le_nat_alt)
  qed
  have p3: "\<forall>i j. i < j \<and> j < length rs \<longrightarrow> snd (rs ! i) < fst (rs ! j)"
    using contiguous_apart [OF c] by (simp add: word_less_nat_alt)
  have p4: "(\<Union>(f, t) \<in> set rs. {f..t}) = {?h + 1..last_to ?h rs}"
  proof (rule set_eqI)
    fix x
    have "x \<in> (\<Union>(f, t) \<in> set rs. {f..t}) \<longleftrightarrow>
        (\<exists>(f, t') \<in> set rs. unat f \<le> unat x \<and> unat x \<le> unat t')"
      by (simp add: word_le_nat_alt split_beta)
    also have "\<dots> \<longleftrightarrow> unat ?h < unat x \<and> unat x \<le> unat (last_to ?h rs)"
      by (rule contiguous_covers [OF c])
    also have "\<dots> \<longleftrightarrow> x \<in> {?h + 1..last_to ?h rs}"
      by (auto simp: word_le_nat_alt h1)
    finally show "x \<in> (\<Union>(f, t) \<in> set rs. {f..t}) \<longleftrightarrow> x \<in> {?h + 1..last_to ?h rs}" .
  qed
  have p5: "last_to ?h rs \<le> replyHeight" using l sum by (simp add: word_le_nat_alt)
  have p6: "(\<exists>blocks. r = Some (Inr blocks)) \<longrightarrow> last_to ?h rs = replyHeight"
    using d sum by (auto simp: word_unat_eq_iff)
  have p7: "(unat ?hc + unat (MaxBlockCountForRetrieving e) - 1)
      div unat (MaxBlockCountForRetrieving e) \<le> fuel \<longrightarrow> r \<noteq> None"
    using fetchBlocks_enough_fuel [OF assms(1), of ?hc fuel ?h "[]" st] assms(3) by simp
  have p8: "(\<forall>hist f t. \<exists>reply. GetRangeOfBlocks e hist f t = Inr reply) \<longrightarrow>
        (\<forall>err. r \<noteq> Some (Inl err))"
    using fetchBlocks_no_rpc_error [of e fuel ?hc ?h "[]" st] assms(3) by auto
  from p1 p2 p3 p4 p5 p6 p7 p8 show ?thesis
    unfolding Let_def rs by blast
qed



lemma test_fetchBlocks:
  "fetchBlocks (Suc (Suc 0)) test_env (1500 - 0) 0 [] test_state =
     (Some (Inr []),
      test_state\<lparr>trace := trace test_state @
        [EvCall ''GetRangeOfBlocks'' (GetRangeOfBlocksArg 1 1000),
         EvCall ''GetRangeOfBlocks'' (GetRangeOfBlocksArg 1001 1500)]\<rparr>)"
  by (simp add: Let_def rpc_GetRangeOfBlocks_def test_env_fields record_event_def)

theorem fetchBlocks_requests_ascending_without_gaps_witness:
  "0 < MaxBlockCountForRetrieving test_env \<and> (0::uint64) < 1500 \<and>
   fetchBlocks (Suc (Suc 0)) test_env (1500 - 0) 0 [] test_state =
     (Some (Inr []),
      test_state\<lparr>trace := trace test_state @
        [EvCall ''GetRangeOfBlocks'' (GetRangeOfBlocksArg 1 1000),
         EvCall ''GetRangeOfBlocks'' (GetRangeOfBlocksArg 1001 1500)]\<rparr>) \<and>
   (unat (1500 - 0 :: uint64) + unat (MaxBlockCountForRetrieving test_env) - 1)
      div unat (MaxBlockCountForRetrieving test_env) \<le> Suc (Suc 0) \<and>
   (\<forall>hist f t. \<exists>reply. GetRangeOfBlocks test_env hist f t = Inr reply) \<and>
   (\<Union>(f, t) \<in> set [(1, 1000), (1001, 1500)]. {f..t}) = {0 + 1..(1500::uint64)}"
proof -
  define st' where "st' = test_state\<lparr>trace := trace test_state @
        [EvCall ''GetRangeOfBlocks'' (GetRangeOfBlocksArg 1 1000),
         EvCall ''GetRangeOfBlocks'' (GetRangeOfBlocksArg 1001 1500)]\<rparr>"
  have a: "0 < MaxBlockCountForRetrieving test_env" by (simp add: test_env_fields)
  have b: "(0::uint64) < 1500" by simp
  have c: "fetchBlocks (Suc (Suc 0)) test_env (1500 - 0) 0 [] test_state = (Some (Inr []), st')"
    unfolding st'_def by (rule test_fetchBlocks)
  have d: "(unat (1500 - 0 :: uint64) + unat (MaxBlockCountForRetrieving test_env) - 1)
      div unat (MaxBlockCountForRetrieving test_env) \<le> Suc (Suc 0)"
    by (simp add: test_env_fields)
  have e: "\<forall>hist f t. \<exists>reply. GetRangeOfBlocks test_env hist f t = Inr reply"
    by (simp add: test_env_fields)
  have rs: "ranges (events_since test_state st') = [(1, 1000), (1001, 1500)]"
    by (simp add: st'_def events_since_def)
  from fetchBlocks_requests_ascending_without_gaps [OF a b c]
  have u: "(\<Union>(f, t) \<in> set (ranges (events_since test_state st')). {f..t})
        = {0 + 1..last_to 0 (ranges (events_since test_state st'))}"
    and l: "last_to 0 (ranges (events_since test_state st')) = 1500"
    unfolding Let_def by blast+
  have "(\<Union>(f, t) \<in> set [(1, 1000), (1001, 1500)]. {f..t}) = {0 + 1..(1500::uint64)}"
    using u unfolding l unfolding rs .
  with a b c d e show ?thesis unfolding st'_def by blast
qed

text \<open>
  C3 as stated does not hold for every run: when a \<open>GetRangeOfBlocks\<close> call returns a
  transport error the procedure returns at once. With the pool at height 0, the peer at
  height 1500 and an error on the first call, the only range requested is 1 to 1000.
\<close>

lemma test_run_rpc_failure:
  "doInitialBlockPoolSync (Suc (Suc 0)) test_env_rpc_failure test_state =
     (Some (Some (ErrExternal ''stream reset'')),
      test_state\<lparr>trace := trace test_state @
        [EvGetLatestBlockHeight, EvCall ''LastBlockHeight'' NilArg,
         EvCall ''GetRangeOfBlocks'' (GetRangeOfBlocksArg 1 1000)]\<rparr>)"
  by (simp add: doInitialBlockPoolSync_def syncWithPeer_def rpc_LastBlockHeight_def
        rpc_GetRangeOfBlocks_def Let_def test_env_rpc_failure_fields
        test_state_def NewSyncManager_def record_event_def)

theorem initial_sync_rpc_error_counterexample:
  "fst (GetLatestBlockHeight test_env_rpc_failure (blockpool test_state)) = 0 \<and>
   LastBlockHeight test_env_rpc_failure (trace test_state @ [EvGetLatestBlockHeight])
     = Inr \<lparr>ReplyHeight = 1500, ReplyError = None\<rparr> \<and>
   ranges (events_since test_state
     (snd (doInitialBlockPoolSync (Suc (Suc 0)) test_env_rpc_failure test_state)))
     = [(1, 1000)] \<and>
   (\<Union>(f, t) \<in> set [(1, 1000)]. {f..t}) \<noteq> {0 + 1..(1500::uint64)}"
proof -
  have "(1500::uint64) \<in> {0 + 1..1500}" by simp
  moreover have "(1500::uint64) \<notin> (\<Union>(f, t) \<in> set [(1, 1000)]. {f..t})" by simp
  ultimately have "(\<Union>(f, t) \<in> set [(1, 1000)]. {f..t}) \<noteq> {0 + 1..(1500::uint64)}"
    by blast
  then show ?thesis
    by (simp add: test_run_rpc_failure events_since_def test_env_rpc_failure_fields)
qed

section \<open>The batches requested by the initial mempool sync\<close>

lemma storeTransactions_no_batches:
  "\<exists>evs. trace (storeTransactions e st vs) = trace st @ evs \<and> batches evs = []"
proof (induction vs arbitrary: st)
  case Nil
  show ?case by simp
next
  case (Cons v vs)
  let ?st1 = "record_event (EvStoreTx v) st"
  show ?case
  proof (cases "StoreTx e (trace st) v")
    case None
    then have eq: "storeTransactions e st (v # vs) = storeTransactions e ?st1 vs"
      by (simp add: mempool_StoreTx_def)
    from Cons.IH [of ?st1] obtain evs where
      "trace (storeTransactions e ?st1 vs) = trace ?st1 @ evs" "batches evs = []" by blast
    then show ?thesis unfolding eq
      by (intro exI [of _ "EvStoreTx v # evs"]) simp
  next
    case (Some err)
    let ?st2 = "record_event (EvWarnf ''%s'' [ArgError err]) ?st1"
    from Some have eq: "storeTransactions e st (v # vs) = storeTransactions e ?st2 vs"
      by (simp add: mempool_StoreTx_def)
    from Cons.IH [of ?st2] obtain evs where
      "trace (storeTransactions e ?st2 vs) = trace ?st2 @ evs" "batches evs = []" by blast
    then show ?thesis unfolding eq
      by (intro exI [of _ "EvStoreTx v # EvWarnf ''%s'' [ArgError err] # evs"]) simp
  qed
qed

lemma collectMissing_no_batches:
  "\<exists>evs. trace (snd (collectMissing e st acc vs)) = trace st @ evs \<and> batches evs = []"
proof (induction vs arbitrary: st acc)
  case Nil
  show ?case by simp
next
  case (Cons v vs)
  let ?st1 = "record_event (EvGetTransaction v) st"
  have step: "\<exists>evs. trace (snd (collectMissing e ?st1 acc1 vs)) = trace st @ evs \<and>
      batches evs = []" for acc1
  proof -
    from Cons.IH [of ?st1 acc1] obtain evs where
      "trace (snd (collectMissing e ?st1 acc1 vs)) = trace ?st1 @ evs" "batches evs = []"
      by blast
    then show ?thesis by (intro exI [of _ "EvGetTransaction v # evs"]) simp
  qed
  show ?case by (simp add: mempool_GetTransaction_def step)
qed

lemma retrieveTxs_Suc_unfold:
  assumes "txs \<noteq> []"
  shows "retrieveTxs (Suc fuel) e txs st =
    (case GetMempoolTxs e (trace st)
            (if length txs > MaxTransactionCountForRetrieving e
             then take (MaxTransactionCountForRetrieving e) txs else txs) of
       Inl err \<Rightarrow>
         (Some (Some err),
          record_event (EvCall ''GetMempoolTxs'' (GetMempoolTxsArg
            (if length txs > MaxTransactionCountForRetrieving e
             then take (MaxTransactionCountForRetrieving e) txs else txs))) st)
     | Inr reply \<Rightarrow>
         (case TxsError reply of
            Some err \<Rightarrow>
              (Some (Some err),
               record_event (EvCall ''GetMempoolTxs'' (GetMempoolTxsArg
                 (if length txs > MaxTransactionCountForRetrieving e
                  then take (MaxTransactionCountForRetrieving e) txs else txs))) st)
          | None \<Rightarrow>
              retrieveTxs fuel e
                (if length txs > MaxTransactionCountForRetrieving e
                 then drop (MaxTransactionCountForRetrieving e) txs else txs)
                (storeTransactions e
                   (record_event (EvCall ''GetMempoolTxs'' (GetMempoolTxsArg
                      (if length txs > MaxTransactionCountForRetrieving e
                       then take (MaxTransactionCountForRetrieving e) txs else txs))) st)
                   (Transactions reply))))"
  using assms by (simp add: rpc_GetMempoolTxs_def split: sum.splits option.splits)

lemma retrieveTxs_batches_bound:
  "\<exists>evs. trace (snd (retrieveTxs fuel e txs st)) = trace st @ evs \<and>
     (\<forall>items \<in> set (batches evs). length items \<le> MaxTransactionCountForRetrieving e)"
proof (induction fuel arbitrary: txs st)
  case 0
  show ?case by simp
next
  case (Suc fuel)
  let ?M = "MaxTransactionCountForRetrieving e"
  show ?case
  proof (cases "txs = []")
    case True
    then show ?thesis by simp
  next
    case False
    define txHashes where "txHashes = (if length txs > ?M then take ?M txs else txs)"
    define rest where "rest = (if length txs > ?M then drop ?M txs else txs)"
    define c where "c = EvCall ''GetMempoolTxs'' (GetMempoolTxsArg txHashes)"
    have len: "length txHashes \<le> ?M" by (simp add: txHashes_def)
    have stop: "\<exists>evs. trace (record_event c st) = trace st @ evs \<and>
        (\<forall>items \<in> set (batches evs). length items \<le> ?M)"
      using len by (intro exI [of _ "[c]"]) (simp add: c_def)
    have go: "\<exists>evs. trace (snd (retrieveTxs fuel e rest
          (storeTransactions e (record_event c st) vs))) = trace st @ evs \<and>
        (\<forall>items \<in> set (batches evs). length items \<le> ?M)" for vs
    proof -
      let ?st2 = "storeTransactions e (record_event c st) vs"
      from storeTransactions_no_batches [of e "record_event c st" vs] obtain evs1 where
        t1: "trace ?st2 = trace (record_event c st) @ evs1" and b1: "batches evs1 = []"
        by blast
      from Suc.IH [of rest ?st2] obtain evs2 where
        t2: "trace (snd (retrieveTxs fuel e rest ?st2)) = trace ?st2 @ evs2"
        and b2: "\<forall>items \<in> set (batches evs2). length items \<le> ?M" by blast
      show ?thesis
        using t1 t2 b1 b2 len
        by (intro exI [of _ "c # evs1 @ evs2"]) (simp add: c_def batches_append)
    qed
    show ?thesis
      unfolding retrieveTxs_Suc_unfold [OF False]
        txHashes_def [symmetric] rest_def [symmetric] c_def [symmetric]
      using stop go by (simp split: sum.splits option.splits)
  qed
qed

lemma doInitialMempoolSync_batches_bound:
  "\<forall>items \<in> set (batches (events_since st (snd (doInitialMempoolSync fuel e st)))).
     length items \<le> MaxTransactionCountForRetrieving e"
proof -
  let ?M = "MaxTransactionCountForRetrieving e"
  let ?c = "EvCall ''Mempool'' NilArg"
  let ?st1 = "record_event ?c st"
  have a: "\<forall>items \<in> set (batches (events_since st ?st1)). length items \<le> ?M"
    by (simp add: events_since_def)
  have b: "\<forall>items \<in> set (batches (events_since st (snd (retrieveTxs fuel e txs st2)))).
      length items \<le> ?M"
    if "collectMissing e ?st1 acc vs = (txs, st2)" for acc vs txs st2
  proof -
    from collectMissing_no_batches [of e ?st1 acc vs] that obtain evs1 where
      t1: "trace st2 = trace ?st1 @ evs1" and b1: "batches evs1 = []" by auto
    from retrieveTxs_batches_bound [of fuel e txs st2] obtain evs2 where
      t2: "trace (snd (retrieveTxs fuel e txs st2)) = trace st2 @ evs2"
      and b2: "\<forall>items \<in> set (batches evs2). length items \<le> ?M" by blast
    from t1 t2 b1 b2 show ?thesis
      by (simp add: events_since_def batches_append)
  qed
  show ?thesis
    using a b
    by (simp add: doInitialMempoolSync_def rpc_Mempool_def split: sum.splits prod.splits)
qed

section \<open>The size of every request\<close>

text \<open>
  C4. In every run of \<open>doInitialBlockPoolSync\<close>, however long and however it ends, each
  \<open>GetRangeOfBlocks\<close> request satisfies \<open>to - from + 1 \<le> MaxBlockCountForRetrieving\<close>, in
  64-bit arithmetic and as numbers; and in every run of \<open>doInitialMempoolSync\<close> each
  \<open>GetMempoolTxs\<close> request carries at most \<open>MaxTransactionCountForRetrieving\<close> hashes.
\<close>

theorem request_batch_bounds:
  "(\<forall>(f, t) \<in> set (ranges (events_since st (snd (doInitialBlockPoolSync fuel e st)))).
      t - f + 1 \<le> MaxBlockCountForRetrieving e \<and>
      unat t + 1 \<le> unat f + unat (MaxBlockCountForRetrieving e)) \<and>
   (\<forall>items \<in> set (batches (events_since st' (snd (doInitialMempoolSync fuel' e st')))).
      length items \<le> MaxTransactionCountForRetrieving e)"
  using doInitialBlockPoolSync_ranges_bound [of st fuel e]
    doInitialMempoolSync_batches_bound [of st' fuel' e]
  by (rule conjI)


lemma test_run_block_sync:
  "doInitialBlockPoolSync (Suc (Suc 0)) test_env test_state =
     (Some None,
      test_state\<lparr>trace := trace test_state @
        [EvGetLatestBlockHeight, EvCall ''LastBlockHeight'' NilArg,
         EvCall ''GetRangeOfBlocks'' (GetRangeOfBlocksArg 1 1000),
         EvCall ''GetRangeOfBlocks'' (GetRangeOfBlocksArg 1001 1500)]\<rparr>)"
  by (simp add: doInitialBlockPoolSync_def syncWithPeer_def rpc_LastBlockHeight_def
        rpc_GetRangeOfBlocks_def Let_def test_env_fields
        test_state_def NewSyncManager_def record_event_def)

lemma test_run_mempool_sync:
  "doInitialMempoolSync (Suc 0) test_env test_state =
     (None,
      test_state\<lparr>trace := trace test_state @
        [EvCall ''Mempool'' NilArg, EvGetTransaction [1],
         EvCall ''GetMempoolTxs'' (GetMempoolTxsArg [ [1] ])]\<rparr>)"
  by (simp add: doInitialMempoolSync_def rpc_Mempool_def rpc_GetMempoolTxs_def
        mempool_GetTransaction_def errors_Is_def test_env_fields
        test_state_def NewSyncManager_def record_event_def)

theorem request_batch_bounds_witness:
  "(1, 1000) \<in> set (ranges (events_since test_state
       (snd (doInitialBlockPoolSync (Suc (Suc 0)) test_env test_state)))) \<and>
   (1000::uint64) - 1 + 1 \<le> MaxBlockCountForRetrieving test_env \<and>
   [ [1] ] \<in> set (batches (events_since test_state
       (snd (doInitialMempoolSync (Suc 0) test_env test_state)))) \<and>
   length [ [1::byte] ] \<le> MaxTransactionCountForRetrieving test_env"
proof -
  have a: "(1, 1000) \<in> set (ranges (events_since test_state
       (snd (doInitialBlockPoolSync (Suc (Suc 0)) test_env test_state))))"
    by (simp add: test_run_block_sync events_since_def)
  have b: "[ [1] ] \<in> set (batches (events_since test_state
       (snd (doInitialMempoolSync (Suc 0) test_env test_state))))"
    by (simp add: test_run_mempool_sync events_since_def)
  from request_batch_bounds
    [of test_state "Suc (Suc 0)" test_env test_state "Suc 0"] a b
  show ?thesis by blast
qed


section \<open>The loop of the initial mempool sync does not end\<close>

text \<open>
  Whenever the list of missing hashes is not empty and the peer answers every
  \<open>GetMempoolTxs\<close> request without error, the loop is still running after any number
  of iterations, having sent one request in each.
\<close>

lemma retrieveTxs_nonempty_never_returns:
  assumes "\<forall>hist items. \<exists>reply. GetMempoolTxs e hist items = Inr reply \<and> TxsError reply = None"
    and "txs \<noteq> []"
  shows "\<exists>evs. trace (snd (retrieveTxs fuel e txs st)) = trace st @ evs \<and>
     length (batches evs) = fuel \<and> fst (retrieveTxs fuel e txs st) = None"
  using assms(2)
proof (induction fuel arbitrary: txs st)
  case 0
  then show ?case by simp
next
  case (Suc fuel)
  let ?M = "MaxTransactionCountForRetrieving e"
  define txHashes where "txHashes = (if length txs > ?M then take ?M txs else txs)"
  define rest where "rest = (if length txs > ?M then drop ?M txs else txs)"
  define c where "c = EvCall ''GetMempoolTxs'' (GetMempoolTxsArg txHashes)"
  have rest: "rest \<noteq> []" using Suc.prems by (simp add: rest_def)
  from assms(1) obtain reply where
    reply: "GetMempoolTxs e (trace st) txHashes = Inr reply" "TxsError reply = None"
    by blast
  let ?st2 = "storeTransactions e (record_event c st) (Transactions reply)"
  have eq: "retrieveTxs (Suc fuel) e txs st = retrieveTxs fuel e rest ?st2"
    unfolding retrieveTxs_Suc_unfold [OF Suc.prems]
      txHashes_def [symmetric] rest_def [symmetric] c_def [symmetric]
    by (simp add: reply)
  from storeTransactions_no_batches [of e "record_event c st" "Transactions reply"]
  obtain evs1 where
    t1: "trace ?st2 = trace (record_event c st) @ evs1" and b1: "batches evs1 = []"
    by blast
  from Suc.IH [OF rest, of ?st2] obtain evs2 where
    t2: "trace (snd (retrieveTxs fuel e rest ?st2)) = trace ?st2 @ evs2"
    and b2: "length (batches evs2) = fuel"
    and n: "fst (retrieveTxs fuel e rest ?st2) = None" by blast
  show ?case unfolding eq
    using t1 t2 b1 b2 n
    by (intro exI [of _ "c # evs1 @ evs2"]) (simp add: c_def batches_append)
qed

lemma test_retrieveTxs:
  "retrieveTxs fuel test_env [ [1] ] st =
     (None, st\<lparr>trace := trace st @
        replicate fuel (EvCall ''GetMempoolTxs'' (GetMempoolTxsArg [ [1] ]))\<rparr>)"
proof (induction fuel arbitrary: st)
  case 0
  show ?case by simp
next
  case (Suc fuel)
  show ?case
    by (simp add: rpc_GetMempoolTxs_def test_env_fields Suc.IH record_event_def
          replicate_append_same [symmetric] del: replicate_Suc)
       (simp add: replicate_append_same)
qed

lemma batches_replicate:
  "batches (replicate n (EvCall m (GetMempoolTxsArg items))) = replicate n items"
  by (induction n) simp_all

text \<open>
  C2 does not hold of the source. With one missing hash, an empty mempool and a peer that
  answers every request without error, \<open>doInitialMempoolSync\<close> has not returned after
  any number of iterations of its loop, and each iteration requests the same hash again:
  the branch for a list of at most \<open>MaxTransactionCountForRetrieving\<close> hashes leaves
  \<open>txsToRetrieve\<close> as it is.
\<close>

theorem doInitialMempoolSync_never_returns:
  "fst (doInitialMempoolSync fuel test_env test_state) = None \<and>
   batches (events_since test_state (snd (doInitialMempoolSync fuel test_env test_state)))
     = replicate fuel [ [1] ]"
  by (simp add: doInitialMempoolSync_def rpc_Mempool_def
        mempool_GetTransaction_def errors_Is_def test_env_fields test_retrieveTxs
        record_event_def events_since_def batches_append batches_replicate)

end
